theory Spec2Isabelle
  imports Complex_Main "HOL-Library.Multiset"
begin


section \<open>Circuit breaker (all-in-one.ts, class CircuitBreaker)\<close>

text \<open>
  The class has five fields and three methods. Numbers are modelled as integers;
  \<open>Date.now()\<close> is a parameter \<open>now\<close> (milliseconds) of the two methods that read
  the clock. \<open>last_failure_time\<close> is \<open>number | null\<close>, here \<open>int option\<close>.
\<close>

datatype breaker_state = CLOSED | OPEN | HALF_OPEN

record CircuitBreaker =
  failure_threshold :: int
  recovery_timeout :: int
  failure_count :: int
  last_failure_time :: "int option"
  state :: breaker_state

definition new_CircuitBreaker :: "int \<Rightarrow> int \<Rightarrow> CircuitBreaker" where
  "new_CircuitBreaker threshold timeout =
     \<lparr>failure_threshold = threshold, recovery_timeout = timeout,
      failure_count = 0, last_failure_time = None, state = CLOSED\<rparr>"

text \<open>
  \<open>this.last_failure_time && Date.now() - this.last_failure_time > ...\<close>: the left
  operand is falsy for \<open>null\<close> and for the number 0.
\<close>

definition recovery_elapsed :: "int \<Rightarrow> CircuitBreaker \<Rightarrow> bool" where
  "recovery_elapsed now b =
     (case last_failure_time b of
        None \<Rightarrow> False
      | Some t \<Rightarrow> t \<noteq> 0 \<and> now - t > recovery_timeout b * 1000)"

definition isAvailable :: "int \<Rightarrow> CircuitBreaker \<Rightarrow> bool \<times> CircuitBreaker" where
  "isAvailable now b =
     (if state b = CLOSED then (True, b)
      else if state b = OPEN then
        (if recovery_elapsed now b then (True, b\<lparr>state := HALF_OPEN\<rparr>)
         else (False, b))
      else (True, b))"

definition recordSuccess :: "CircuitBreaker \<Rightarrow> CircuitBreaker" where
  "recordSuccess b = b\<lparr>failure_count := 0, state := CLOSED\<rparr>"

definition recordFailure :: "int \<Rightarrow> CircuitBreaker \<Rightarrow> CircuitBreaker" where
  "recordFailure now b =
     (let b1 = b\<lparr>failure_count := failure_count b + 1, last_failure_time := Some now\<rparr>
      in if failure_count b1 \<ge> failure_threshold b1 then b1\<lparr>state := OPEN\<rparr> else b1)"

text \<open>A history of method calls on one breaker object, applied left to right.\<close>

datatype breaker_call = IsAvailable int | RecordSuccess | RecordFailure int

fun apply_call :: "breaker_call \<Rightarrow> CircuitBreaker \<Rightarrow> CircuitBreaker" where
  "apply_call (IsAvailable now) b = snd (isAvailable now b)"
| "apply_call RecordSuccess b = recordSuccess b"
| "apply_call (RecordFailure now) b = recordFailure now b"

definition after_calls :: "breaker_call list \<Rightarrow> CircuitBreaker \<Rightarrow> CircuitBreaker" where
  "after_calls cs b = fold apply_call cs b"

text \<open>
  Invariant of every breaker reached from a fresh one: outside \<open>CLOSED\<close> the failure
  count has reached the threshold and a failure time is stored.
\<close>

definition tripped :: "CircuitBreaker \<Rightarrow> bool" where
  "tripped b = (state b = CLOSED \<or>
     (failure_threshold b \<le> failure_count b \<and> last_failure_time b \<noteq> None))"


section \<open>JavaScript values used by the crawlers\<close>

text \<open>
  A JavaScript string is modelled as a \<open>string\<close>: one \<open>char\<close> per character for ASCII
  text, and the UTF-8 bytes of a character outside ASCII (the Korean literals of the
  source are written out as such byte lists). Numbers that the code only counts with are
  \<open>nat\<close> or \<open>int\<close>; \<open>NaN\<close> is \<open>None\<close> of an option.
\<close>

datatype js_error = AxiosError string | TypeError string | SyntaxError string

fun message :: "js_error \<Rightarrow> string" where
  "message (AxiosError m) = m"
| "message (TypeError m) = m"
| "message (SyntaxError m) = m"

definition is_digit :: "char \<Rightarrow> bool" where
  "is_digit c = (48 \<le> (of_char c :: nat) \<and> (of_char c :: nat) \<le> 57)"

definition digit_char :: "nat \<Rightarrow> char" where
  "digit_char n = char_of (48 + n)"

text \<open>\<open>Number.prototype.toString()\<close> on a non-negative integer: its decimal digits.\<close>

fun string_of_nat :: "nat \<Rightarrow> string" where
  "string_of_nat n =
     (if n < 10 then [digit_char n]
      else string_of_nat (n div 10) @ [digit_char (n mod 10)])"

declare string_of_nat.simps [simp del]

definition string_of_int :: "int \<Rightarrow> string" where
  "string_of_int i =
     (if i < 0 then CHR ''-'' # string_of_nat (nat (- i)) else string_of_nat (nat i))"

text \<open>A number that may be \<open>NaN\<close>, converted to a string.\<close>

definition number_toString :: "int option \<Rightarrow> string" where
  "number_toString n = (case n of None \<Rightarrow> ''NaN'' | Some i \<Rightarrow> string_of_int i)"

text \<open>\<open>s.padStart(n, c)\<close> with a one-character filler.\<close>

definition padStart :: "nat \<Rightarrow> char \<Rightarrow> string \<Rightarrow> string" where
  "padStart n c s = replicate (n - length s) c @ s"

text \<open>
  \<open>parseInt(s)\<close> without a radix: leading white space is skipped, one sign is read, a
  \<open>0x\<close> or \<open>0X\<close> prefix selects radix 16, and the longest run of digits of the radix
  is converted; no digit at all gives \<open>NaN\<close>. Only the ASCII white space characters
  are recognised here.
\<close>

definition is_space :: "char \<Rightarrow> bool" where
  "is_space c = ((of_char c :: nat) \<in> {9, 10, 11, 12, 13, 32})"

definition digit_value :: "nat \<Rightarrow> char \<Rightarrow> nat option" where
  "digit_value radix c =
     (let k = (of_char c :: nat);
          v = (if 48 \<le> k \<and> k \<le> 57 then Some (k - 48)
               else if 97 \<le> k \<and> k \<le> 122 then Some (k - 87)
               else if 65 \<le> k \<and> k \<le> 90 then Some (k - 55)
               else None)
      in case v of None \<Rightarrow> None | Some d \<Rightarrow> if d < radix then Some d else None)"

definition digits_value :: "nat \<Rightarrow> string \<Rightarrow> nat" where
  "digits_value radix ds =
     foldl (\<lambda>a c. a * radix + (case digit_value radix c of None \<Rightarrow> 0 | Some d \<Rightarrow> d)) 0 ds"

definition parseInt :: "string \<Rightarrow> int option" where
  "parseInt s =
     (let s1 = dropWhile is_space s;
          neg = (take 1 s1 = ''-'');
          s2 = (if take 1 s1 = ''-'' \<or> take 1 s1 = ''+'' then drop 1 s1 else s1);
          hex = (take 2 s2 = ''0x'' \<or> take 2 s2 = ''0X'');
          radix = (if hex then 16 else 10);
          s3 = (if hex then drop 2 s2 else s2);
          ds = takeWhile (\<lambda>c. digit_value radix c \<noteq> None) s3
      in if ds = [] then None
         else Some ((if neg then - 1 else 1) * int (digits_value radix ds)))"

text \<open>\<open>s.split(sep)\<close> with a one-character separator.\<close>

fun js_split :: "char \<Rightarrow> string \<Rightarrow> string list" where
  "js_split sep [] = [[]]"
| "js_split sep (c # cs) =
     (if c = sep then [] # js_split sep cs
      else (case js_split sep cs of [] \<Rightarrow> [[c]] | p # ps \<Rightarrow> (c # p) # ps))"

text \<open>
  An element of an array destructuring, put into a template literal: a missing element is
  \<open>undefined\<close> and prints as such.
\<close>

definition element_text :: "string list \<Rightarrow> nat \<Rightarrow> string" where
  "element_text xs i = (if i < length xs then xs ! i else ''undefined'')"

text \<open>\<open>xs.join(sep)\<close>.\<close>

fun join :: "string \<Rightarrow> string list \<Rightarrow> string" where
  "join sep [] = []"
| "join sep [x] = x"
| "join sep (x # y # ys) = x @ sep @ join sep (y # ys)"

text \<open>The requests and pauses of a run, in the order in which they happen.\<close>

datatype event = Get string | Post string "string list" | Sleep rat


section \<open>Tabular crawler (nowon-crawler.ts, class NowonCrawler)\<close>

text \<open>
  The hour values of a schedule are JavaScript numbers, that is IEEE doubles. Their type
  is left open as \<open>'n\<close>, and the operations the crawler applies to numbers are
  parameters of the model: the addition of two numbers, the text of
  \<open>Math.floor(x).toString()\<close>, and the text \<open>parseInt(s).toString()\<close> for a digit
  string \<open>s\<close> that denotes the integer \<open>n\<close>. What is proved for every such choice of
  operations holds for the doubles of the runtime, whatever they round to or print as.
\<close>

record 'n arithmetic =
  plus_num :: "'n \<Rightarrow> 'n \<Rightarrow> 'n"
  floor_text :: "'n \<Rightarrow> string"
  int_text :: "int \<Rightarrow> string"

record 'n TimeListResponse =
  useBeginHour :: 'n
  hourUnit :: 'n
  line :: string

datatype cseq_value = CseqNumber int | CseqString string

record ReservedItem =
  cseq :: "cseq_value option"
  useTimeBegin :: "string option"

record CheckReserveResponse =
  list :: "ReservedItem list option"

record CrawlRow =
  date :: string
  court :: string
  startTime :: string
  endTime :: string
  status :: string

record MonthResults =
  bul :: "CrawlRow list"
  ma :: "CrawlRow list"
  cho :: "CrawlRow list"

text \<open>
  The two endpoints of the upstream, as the session sees them: what a POST for a date and
  a facility returns, or the error it throws.
\<close>

record 'n nowon_upstream =
  reserve_time_pick :: "string \<Rightarrow> int \<Rightarrow> js_error + 'n TimeListResponse"
  api_reserved :: "string \<Rightarrow> int \<Rightarrow> js_error + CheckReserveResponse"

definition nowon_baseUrl :: string where
  "nowon_baseUrl = ''https://reservation.nowonsc.kr''"

text \<open>The Korean literals: court, "not bookable", "bookable".\<close>

definition ko_court :: string where
  "ko_court = [CHR 0xEC, CHR 0xBD, CHR 0x94, CHR 0xED, CHR 0x8A, CHR 0xB8]"

definition status_reserved :: string where
  "status_reserved = [CHR 0xEC, CHR 0x98, CHR 0x88, CHR 0xEC, CHR 0x95, CHR 0xBD,
                      CHR 0xEB, CHR 0xB6, CHR 0x88, CHR 0xEA, CHR 0xB0, CHR 0x80]"

definition status_available :: string where
  "status_available = [CHR 0xEC, CHR 0x98, CHR 0x88, CHR 0xEC, CHR 0x95, CHR 0xBD,
                       CHR 0xEA, CHR 0xB0, CHR 0x80, CHR 0xEB, CHR 0x8A, CHR 0xA5]"

definition getTimeList ::
  "'n nowon_upstream \<Rightarrow> string \<Rightarrow> int \<Rightarrow> event list
     \<Rightarrow> (js_error + 'n TimeListResponse) \<times> event list" where
  "getTimeList up pickDate cate2 lg =
     (reserve_time_pick up pickDate cate2,
      lg @ [Post (nowon_baseUrl @ ''/sports/reserve_time_pick'') [pickDate, string_of_int cate2]])"

text \<open>\<open>checkReserve\<close> catches every error of its request and returns an empty object.\<close>

definition checkReserve ::
  "'n nowon_upstream \<Rightarrow> string \<Rightarrow> int \<Rightarrow> event list \<Rightarrow> CheckReserveResponse \<times> event list" where
  "checkReserve up pickDate cate2 lg =
     ((case api_reserved up pickDate cate2 of
         Inl e \<Rightarrow> \<lparr>list = None\<rparr>
       | Inr r \<Rightarrow> r),
      lg @ [Post (nowon_baseUrl @ ''/API'') [''A'', pickDate, string_of_int cate2]])"

text \<open>Lines 147-156: the key of one reserved entry.\<close>

definition cseq_text :: "cseq_value option \<Rightarrow> string" where
  "cseq_text c = (case c of None \<Rightarrow> ''undefined''
                  | Some (CseqNumber n) \<Rightarrow> string_of_int n
                  | Some (CseqString s) \<Rightarrow> s)"

definition all_digits :: "string \<Rightarrow> bool" where
  "all_digits s = (s \<noteq> [] \<and> list_all is_digit s)"

text \<open>\<open>parseInt(s).toString()\<close>, which is \<open>NaN\<close> when no integer is read.\<close>

definition parsed_text :: "'n arithmetic \<Rightarrow> int option \<Rightarrow> string" where
  "parsed_text ar n = (case n of None \<Rightarrow> ''NaN'' | Some i \<Rightarrow> int_text ar i)"

definition reserved_key :: "'n arithmetic \<Rightarrow> ReservedItem \<Rightarrow> string" where
  "reserved_key ar r =
     (let beginTime0 = (case useTimeBegin r of None \<Rightarrow> ''00:00''
                        | Some b \<Rightarrow> if b = [] then ''00:00'' else b);
          beginTime = (if all_digits beginTime0
                       then padStart 2 CHR ''0'' (parsed_text ar (parseInt beginTime0)) @ '':00''
                       else beginTime0)
      in cseq_text (cseq r) @ '','' @ beginTime)"

text \<open>Line 145: \<open>reserved.list || []\<close>.\<close>

definition reservedList :: "CheckReserveResponse \<Rightarrow> ReservedItem list" where
  "reservedList reserved = (case list reserved of None \<Rightarrow> [] | Some l \<Rightarrow> l)"

definition reservedSet :: "'n arithmetic \<Rightarrow> CheckReserveResponse \<Rightarrow> string set" where
  "reservedSet ar reserved = set (map (reserved_key ar) (reservedList reserved))"

text \<open>Lines 158-170: the court roster and the label prefix of a facility.\<close>

definition court_entry :: "nat \<Rightarrow> nat \<Rightarrow> string" where
  "court_entry base i = string_of_nat (i + 1) @ ko_court @ ''@'' @ string_of_nat (base + i + 1)"

definition courts_of :: "int \<Rightarrow> string list" where
  "courts_of cate2 =
     (if cate2 = 17 then map (court_entry 29) [0..<4]
      else if cate2 = 15 then map (court_entry 17) [0..<3]
      else map (court_entry 20) [0..<9])"

definition prefix_of :: "int \<Rightarrow> string" where
  "prefix_of cate2 = (if cate2 = 17 then ''2'' else if cate2 = 15 then '''' else ''1'')"

text \<open>Lines 179-180: the text of an hour value.\<close>

definition hour_text :: "'n arithmetic \<Rightarrow> 'n \<Rightarrow> string" where
  "hour_text ar h = padStart 2 CHR ''0'' (floor_text ar h) @ '':00''"

text \<open>Lines 183-194: the row of one court in one interval.\<close>

definition court_row :: "string \<Rightarrow> string \<Rightarrow> string set \<Rightarrow> string \<Rightarrow> string \<Rightarrow> string \<Rightarrow> CrawlRow" where
  "court_row pickDate pfx rset startTxt endTxt c =
     (let parts = js_split CHR ''@'' c;
          courtName = element_text parts 0;
          courtSeq = element_text parts 1;
          key = courtSeq @ '','' @ startTxt;
          isReserved = (key \<in> rset);
          courtNum = (if pfx \<noteq> [] then pfx @ courtName else courtName)
      in \<lparr>date = pickDate, court = courtNum, startTime = startTxt, endTime = endTxt,
          status = (if isReserved then status_reserved else status_available)\<rparr>)"

text \<open>Lines 177-198: the loop over the intervals; the first argument counts what is left.\<close>

fun slot_rows ::
  "'n arithmetic \<Rightarrow> nat \<Rightarrow> 'n \<Rightarrow> 'n \<Rightarrow> string \<Rightarrow> string \<Rightarrow> string set \<Rightarrow> string list
     \<Rightarrow> CrawlRow list" where
  "slot_rows ar 0 start unit pickDate pfx rset courts = []"
| "slot_rows ar (Suc n) start unit pickDate pfx rset courts =
     (let finish = plus_num ar start unit;
          startTxt = hour_text ar start;
          endTxt = hour_text ar finish
      in map (court_row pickDate pfx rset startTxt endTxt) courts)
     @ slot_rows ar n (plus_num ar start unit) unit pickDate pfx rset courts"

text \<open>\<open>for (let i = 0; i < lineCount; i++)\<close>: no pass when \<open>lineCount\<close> is \<open>NaN\<close> or below 1.\<close>

definition loop_count :: "int option \<Rightarrow> nat" where
  "loop_count n = (case n of None \<Rightarrow> 0 | Some k \<Rightarrow> nat k)"

definition build_rows ::
  "'n arithmetic \<Rightarrow> string \<Rightarrow> int \<Rightarrow> 'n TimeListResponse \<Rightarrow> CheckReserveResponse
     \<Rightarrow> CrawlRow list" where
  "build_rows ar pickDate cate2 result reserved =
     slot_rows ar (loop_count (parseInt (line result))) (useBeginHour result) (hourUnit result)
       pickDate (prefix_of cate2) (reservedSet ar reserved) (courts_of cate2)"

definition crawlAvailableTimes ::
  "'n arithmetic \<Rightarrow> 'n nowon_upstream \<Rightarrow> string \<Rightarrow> int \<Rightarrow> event list
     \<Rightarrow> (js_error + CrawlRow list) \<times> event list" where
  "crawlAvailableTimes ar up pickDate cate2 lg =
     (case getTimeList up pickDate cate2 lg of
        (Inl e, lg1) \<Rightarrow> (Inl e, lg1)
      | (Inr result, lg1) \<Rightarrow>
          (case checkReserve up pickDate cate2 lg1 of
             (reserved, lg2) \<Rightarrow> (Inr (build_rows ar pickDate cate2 result reserved), lg2)))"

text \<open>A court of the roster as the pair of its name and its sequence id.\<close>

definition court_parts :: "string \<Rightarrow> string \<times> string" where
  "court_parts c = (element_text (js_split CHR ''@'' c) 0, element_text (js_split CHR ''@'' c) 1)"

definition slot_key :: "CrawlRow \<Rightarrow> string \<times> string" where
  "slot_key r = (court r, startTime r)"

text \<open>The values of \<open>startTime\<close> at the passes of the loop, in order.\<close>

fun loop_starts :: "'n arithmetic \<Rightarrow> nat \<Rightarrow> 'n \<Rightarrow> 'n \<Rightarrow> 'n list" where
  "loop_starts ar 0 start unit = []"
| "loop_starts ar (Suc n) start unit = start # loop_starts ar n (plus_num ar start unit) unit"

text \<open>
  The begin time of a reserved entry as the key is meant to carry it: a bare integer text
  is replaced by its value, padded to two digits and followed by \<open>:00\<close>; any other
  text stands as it is.
\<close>

definition normalized_begin :: "string \<Rightarrow> string" where
  "normalized_begin b =
     (if b \<noteq> [] \<and> list_all is_digit b
      then padStart 2 CHR ''0'' (string_of_nat (digits_value 10 b)) @ '':00''
      else b)"


text \<open>
  Arithmetic without rounding, on rationals, with integers printed in decimal: what the
  doubles of the runtime do as long as the operands and the sums are whole numbers or
  multiples of one half below \<open>2 ^ 53\<close>.
\<close>

definition exact_arithmetic :: "rat arithmetic" where
  "exact_arithmetic =
     \<lparr>plus_num = (\<lambda>x y. x + y), floor_text = (\<lambda>x. string_of_int \<lfloor>x\<rfloor>),
      int_text = string_of_int\<rparr>"

text \<open>
  A sample upstream for concrete runs: facility 16 times out; on 2025-10-02 the schedule
  starts at midnight with slots of an hour and a half, on every other day at 8 with slots
  of one hour; the reserved list names court 18 at "8" and court "19" without a begin time.
\<close>

definition sample_upstream :: "rat nowon_upstream" where
  "sample_upstream =
     \<lparr>reserve_time_pick =
        (\<lambda>d c. if c = 16 then Inl (AxiosError ''timeout of 15000ms exceeded'')
               else if d = ''2025-10-02''
               then Inr \<lparr>useBeginHour = 0, hourUnit = 3 / 2, line = ''2''\<rparr>
               else Inr \<lparr>useBeginHour = 8, hourUnit = 1, line = ''2''\<rparr>),
      api_reserved =
        (\<lambda>d c. Inr \<lparr>list = Some [\<lparr>cseq = Some (CseqNumber 18), useTimeBegin = Some ''8''\<rparr>,
                                  \<lparr>cseq = Some (CseqString ''19''), useTimeBegin = None\<rparr>]\<rparr>)\<rparr>"


section \<open>Export (nowon-crawler.ts, generateCSV and generateAvailableOnlyCSV)\<close>

text \<open>The three facility display names of the export.\<close>

definition facility_bul :: string where
  "facility_bul = [CHR 0xEB, CHR 0xB6, CHR 0x88, CHR 0xEC, CHR 0x95, CHR 0x94,
                   CHR 0xEC, CHR 0x82, CHR 0xB0]"

definition facility_ma :: string where
  "facility_ma = [CHR 0xEB, CHR 0xA7, CHR 0x88, CHR 0xEB, CHR 0x93, CHR 0xA4]"

definition facility_cho :: string where
  "facility_cho = [CHR 0xEC, CHR 0xB4, CHR 0x88, CHR 0xEC, CHR 0x95, CHR 0x88,
                   CHR 0xEC, CHR 0x82, CHR 0xB0]"

text \<open>\<open>{ ...r, facility: f }\<close>: a row with one more field.\<close>

record ExportRow = CrawlRow +
  facility :: string

definition with_facility :: "string \<Rightarrow> CrawlRow \<Rightarrow> ExportRow" where
  "with_facility f r =
     \<lparr>date = date r, court = court r, startTime = startTime r, endTime = endTime r,
      status = status r, facility = f\<rparr>"

definition allData :: "MonthResults \<Rightarrow> ExportRow list" where
  "allData results =
     map (with_facility facility_bul) (bul results)
     @ map (with_facility facility_ma) (ma results)
     @ map (with_facility facility_cho) (cho results)"

definition availableData :: "MonthResults \<Rightarrow> ExportRow list" where
  "availableData results = filter (\<lambda>r. status r = status_available) (allData results)"

text \<open>
  The comparator of both \<open>sort\<close> calls. \<open>String.prototype.localeCompare\<close> is the
  collation of the runtime; it is the parameter \<open>lc\<close>.
\<close>

definition compare_rows :: "(string \<Rightarrow> string \<Rightarrow> int) \<Rightarrow> ExportRow \<Rightarrow> ExportRow \<Rightarrow> int" where
  "compare_rows lc a b =
     (if date a \<noteq> date b then lc (date a) (date b)
      else if facility a \<noteq> facility b then lc (facility a) (facility b)
      else if court a \<noteq> court b then lc (court a) (court b)
      else lc (startTime a) (startTime b))"

text \<open>
  \<open>Array.prototype.sort\<close> with a comparator is the built-in stable sort of the language
  (stable since ECMAScript 2019): an element goes in front of the first element that it
  does not compare greater than, so that earlier elements stay in front of later ones that
  compare equal.
\<close>

fun insert_sorted :: "('a \<Rightarrow> 'a \<Rightarrow> int) \<Rightarrow> 'a \<Rightarrow> 'a list \<Rightarrow> 'a list" where
  "insert_sorted cmp x [] = [x]"
| "insert_sorted cmp x (y # ys) =
     (if cmp x y \<le> 0 then x # y # ys else y # insert_sorted cmp x ys)"

definition array_sort :: "('a \<Rightarrow> 'a \<Rightarrow> int) \<Rightarrow> 'a list \<Rightarrow> 'a list" where
  "array_sort cmp xs = foldr (insert_sorted cmp) xs []"

definition sorted_all :: "(string \<Rightarrow> string \<Rightarrow> int) \<Rightarrow> MonthResults \<Rightarrow> ExportRow list" where
  "sorted_all lc results = array_sort (compare_rows lc) (allData results)"

definition sorted_available :: "(string \<Rightarrow> string \<Rightarrow> int) \<Rightarrow> MonthResults \<Rightarrow> ExportRow list" where
  "sorted_available lc results = array_sort (compare_rows lc) (availableData results)"

text \<open>The header words: date, court, start time, end time, status.\<close>

definition header_date :: string where
  "header_date = [CHR 0xEB, CHR 0x82, CHR 0xA0, CHR 0xEC, CHR 0xA7, CHR 0x9C]"

definition header_start :: string where
  "header_start = [CHR 0xEC, CHR 0x8B, CHR 0x9C, CHR 0xEC, CHR 0x9E, CHR 0x91,
                   CHR 0xEC, CHR 0x8B, CHR 0x9C, CHR 0xEA, CHR 0xB0, CHR 0x84]"

definition header_end :: string where
  "header_end = [CHR 0xEC, CHR 0xA2, CHR 0x85, CHR 0xEB, CHR 0xA3, CHR 0x8C,
                 CHR 0xEC, CHR 0x8B, CHR 0x9C, CHR 0xEA, CHR 0xB0, CHR 0x84]"

definition header_status :: string where
  "header_status = [CHR 0xEC, CHR 0x83, CHR 0x81, CHR 0xED, CHR 0x83, CHR 0x9C]"

definition csv_row_full :: "ExportRow \<Rightarrow> string" where
  "csv_row_full r =
     join '','' [date r, facility r @ '' '' @ court r, startTime r, endTime r, status r]"

definition csv_row_available :: "ExportRow \<Rightarrow> string" where
  "csv_row_available r =
     join '','' [date r, facility r @ '' '' @ court r, startTime r, endTime r]"

definition generateCSV :: "(string \<Rightarrow> string \<Rightarrow> int) \<Rightarrow> MonthResults \<Rightarrow> string" where
  "generateCSV lc results =
     join [CHR 0x0A]
       (join '','' [header_date, ko_court, header_start, header_end, header_status]
        # map csv_row_full (sorted_all lc results))"

definition generateAvailableOnlyCSV :: "(string \<Rightarrow> string \<Rightarrow> int) \<Rightarrow> MonthResults \<Rightarrow> string" where
  "generateAvailableOnlyCSV lc results =
     join [CHR 0x0A]
       (join '','' [header_date, ko_court, header_start, header_end]
        # map csv_row_available (sorted_available lc results))"

text \<open>
  The order the export is meant to have: by date, then facility display name, then court
  label, then start time, each compared by \<open>lc\<close>.
\<close>

definition canonical_le :: "(string \<Rightarrow> string \<Rightarrow> int) \<Rightarrow> ExportRow \<Rightarrow> ExportRow \<Rightarrow> bool" where
  "canonical_le lc a b =
     ((date a \<noteq> date b \<and> lc (date a) (date b) \<le> 0) \<or>
      (date a = date b \<and>
        ((facility a \<noteq> facility b \<and> lc (facility a) (facility b) \<le> 0) \<or>
         (facility a = facility b \<and>
           ((court a \<noteq> court b \<and> lc (court a) (court b) \<le> 0) \<or>
            (court a = court b \<and> lc (startTime a) (startTime b) \<le> 0))))))"

definition row_sort_key :: "ExportRow \<Rightarrow> string \<times> string \<times> string \<times> string" where
  "row_sort_key r = (date r, facility r, court r, startTime r)"

definition key_strings :: "ExportRow list \<Rightarrow> string list" where
  "key_strings rs = concat (map (\<lambda>r. [date r, facility r, court r, startTime r]) rs)"

text \<open>
  What the sort needs of the collation, on the strings that occur as keys: any two are
  comparable, two that compare both ways are the same string, and the comparison is
  transitive.
\<close>

definition linear_on :: "string list \<Rightarrow> (string \<Rightarrow> string \<Rightarrow> int) \<Rightarrow> bool" where
  "linear_on ks lc =
     (\<forall>a\<in>set ks. \<forall>b\<in>set ks.
        (lc a b \<le> 0 \<or> lc b a \<le> 0)
        \<and> (lc a b \<le> 0 \<and> lc b a \<le> 0 \<longrightarrow> a = b)
        \<and> (\<forall>c\<in>set ks. lc a b \<le> 0 \<and> lc b c \<le> 0 \<longrightarrow> lc a c \<le> 0))"

text \<open>A comparison by character code, as a collation to run the export with.\<close>

fun code_compare :: "string \<Rightarrow> string \<Rightarrow> int" where
  "code_compare [] [] = 0"
| "code_compare [] (y # ys) = - 1"
| "code_compare (x # xs) [] = 1"
| "code_compare (x # xs) (y # ys) =
     (if (of_char x :: nat) < of_char y then - 1
      else if (of_char y :: nat) < of_char x then 1
      else code_compare xs ys)"

definition sample_results :: MonthResults where
  "sample_results =
     \<lparr>bul = [\<lparr>date = ''2025-10-02'', court = ''1'', startTime = ''08:00'', endTime = ''09:00'',
               status = status_available\<rparr>,
             \<lparr>date = ''2025-10-01'', court = ''2'', startTime = ''09:00'', endTime = ''10:00'',
               status = status_reserved\<rparr>,
             \<lparr>date = ''2025-10-01'', court = ''2'', startTime = ''09:00'', endTime = ''11:00'',
               status = status_available\<rparr>],
      ma = [\<lparr>date = ''2025-10-01'', court = ''1'', startTime = ''08:00'', endTime = ''09:00'',
              status = status_available\<rparr>],
      cho = []\<rparr>"


section \<open>Embedded-markup crawler (all-in-one.ts, class TennisCourtCrawler)\<close>

text \<open>
  A value that \<open>JSON.parse\<close> can return. A number only matters here through its
  truthiness and is kept as an integer; an object is the list of its members, with
  distinct keys. A property read that finds nothing is \<open>undefined\<close>, here \<open>None\<close>.
\<close>

datatype json =
    JNull
  | JBool bool
  | JNum int
  | JStr string
  | JArr "json list"
  | JObj "(string \<times> json) list"

text \<open>
  \<open>v.k\<close> for a value \<open>v\<close> that is not \<open>null\<close> and one of the member names the
  crawler reads: only an object can have it.
\<close>

definition read_prop :: "json \<Rightarrow> string \<Rightarrow> json option" where
  "read_prop v k = (case v of JObj members \<Rightarrow> map_of members k | _ \<Rightarrow> None)"

fun truthy :: "json option \<Rightarrow> bool" where
  "truthy None = False"
| "truthy (Some JNull) = False"
| "truthy (Some (JBool b)) = b"
| "truthy (Some (JNum n)) = (n \<noteq> 0)"
| "truthy (Some (JStr s)) = (s \<noteq> [])"
| "truthy (Some (JArr xs)) = True"
| "truthy (Some (JObj ms)) = True"

text \<open>\<open>a || d\<close> for a property read \<open>a\<close>.\<close>

definition or_default :: "json option \<Rightarrow> json \<Rightarrow> json" where
  "or_default a d = (case a of Some v \<Rightarrow> if truthy a then v else d | None \<Rightarrow> d)"

text \<open>
  The fields of the three interfaces. \<open>TimeSlot\<close> and \<open>AvailabilityResult\<close> have field
  names that the rows of the tabular crawler use too; they carry a prefix here. The string
  fields of a court hold whatever value the response had under that name.
\<close>

record TimeSlot =
  slot_time :: string
  slot_available :: bool
  slot_price :: string
  slot_status :: string

record CourtData =
  court_name :: json
  court_code :: json
  place_code :: json
  event_code :: json
  time_slots :: "TimeSlot list"
  available_slots :: nat
  total_slots :: nat
  has_availability :: bool

record AvailabilityResult =
  ar_date :: string
  formatted_date :: "string option"
  ar_status :: string
  ar_error :: "string option"
  ar_courts :: "CourtData list"
  total_available_slots :: "nat option"
  day_has_availability :: "bool option"

text \<open>
  What the markup library hands to the callback of \<open>each\<close>: an \<open>input\<close> element of type
  checkbox with its \<open>value\<close> attribute, if it has one, and whether it has a \<open>disabled\<close>
  attribute.
\<close>

record checkbox =
  attr_value :: "string option"
  attr_disabled :: bool

text \<open>
  The library functions the crawler calls: \<open>JSON.parse\<close>, and \<open>cheerio.load\<close> followed
  by the selection of the checkbox inputs, in document order.
\<close>

record platform =
  JSON_parse :: "string \<Rightarrow> js_error + json"
  select_checkboxes :: "json \<Rightarrow> js_error + checkbox list"

text \<open>
  The upstream as the session sees it while a date is being checked: the GET of the index
  page and the POST of the date, each returning or throwing.
\<close>

record tennis_upstream =
  index_get :: "string \<Rightarrow> js_error + unit"
  ajax_post :: "string \<Rightarrow> js_error + json"

text \<open>The crawler object: its breaker, and the requests and pauses it has made so far.\<close>

record crawler =
  circuitBreaker :: CircuitBreaker
  loggedIn :: bool
  events :: "event list"

definition tennis_baseUrl :: string where
  "tennis_baseUrl = ''https://yeyak.dobongsiseol.or.kr''"

definition ajaxUrl :: string where
  "ajaxUrl = tennis_baseUrl @ ''/rent/ajax.day.rent.list_re.php''"

definition indexUrl :: string where
  "indexUrl = tennis_baseUrl @ ''/rent/index.php?c_id=05&page_info=index&n_type=rent&c_ox=0''"

definition new_TennisCourtCrawler :: crawler where
  "new_TennisCourtCrawler =
     \<lparr>circuitBreaker = new_CircuitBreaker 5 600, loggedIn = False, events = []\<rparr>"

text \<open>
  \<open>value.match(/(\d{1,2}):(\d{2})/)\<close>: the leftmost place where one or two digits, a
  colon and two digits stand; two digits are tried before one.
\<close>

definition match_at :: "string \<Rightarrow> (string \<times> string) option" where
  "match_at s =
     (if 5 \<le> length s \<and> is_digit (s ! 0) \<and> is_digit (s ! 1) \<and> s ! 2 = CHR '':''
          \<and> is_digit (s ! 3) \<and> is_digit (s ! 4)
      then Some (take 2 s, take 2 (drop 3 s))
      else if 4 \<le> length s \<and> is_digit (s ! 0) \<and> s ! 1 = CHR '':''
          \<and> is_digit (s ! 2) \<and> is_digit (s ! 3)
      then Some (take 1 s, take 2 (drop 2 s))
      else None)"

fun time_match :: "string \<Rightarrow> (string \<times> string) option" where
  "time_match [] = None"
| "time_match (c # cs) =
     (case match_at (c # cs) of Some m \<Rightarrow> Some m | None \<Rightarrow> time_match cs)"

text \<open>Lines 595-612: the callback of \<open>each\<close>; \<open>None\<close> when it pushes nothing.\<close>

definition control_value :: "checkbox \<Rightarrow> string" where
  "control_value cb = (case attr_value cb of None \<Rightarrow> [] | Some v \<Rightarrow> v)"

definition corrected_hour :: "int option \<Rightarrow> int option" where
  "corrected_hour hour =
     (case hour of None \<Rightarrow> None | Some n \<Rightarrow> if 7 \<le> n then Some (n - 1) else Some n)"

definition checkbox_slot :: "checkbox \<Rightarrow> TimeSlot option" where
  "checkbox_slot cb =
     (case time_match (control_value cb) of
        None \<Rightarrow> None
      | Some (h, minute) \<Rightarrow>
          if parseInt h = Some 6 \<and> minute = ''00'' then None
          else Some \<lparr>slot_time = padStart 2 CHR ''0'' (number_toString (corrected_hour (parseInt h)))
                                   @ '':'' @ minute,
                      slot_available = (\<not> attr_disabled cb),
                      slot_price = [],
                      slot_status = (if \<not> attr_disabled cb then ''available'' else ''disabled'')\<rparr>)"

definition parseTimeSlots :: "platform \<Rightarrow> json \<Rightarrow> js_error + TimeSlot list" where
  "parseTimeSlots lib htmlContent =
     (case select_checkboxes lib htmlContent of
        Inl e \<Rightarrow> Inl e
      | Inr boxes \<Rightarrow> Inr (List.map_filter checkbox_slot boxes))"

text \<open>
  Lines 561-581: the callback of \<open>forEach\<close> for the block at index \<open>i\<close>. Reading a
  property of \<open>null\<close> throws.
\<close>

definition court_data :: "platform \<Rightarrow> nat \<Rightarrow> json \<Rightarrow> js_error + CourtData" where
  "court_data lib i courtInfo =
     (if courtInfo = JNull then Inl (TypeError ''Cannot read properties of null'')
      else
        (case (if truthy (read_prop courtInfo ''htmlx'')
               then parseTimeSlots lib (or_default (read_prop courtInfo ''htmlx'') JNull)
               else Inr [])
         of Inl e \<Rightarrow> Inl e
          | Inr slots \<Rightarrow>
              Inr \<lparr>court_name = or_default (read_prop courtInfo ''play_name'')
                                  (JStr (ko_court @ string_of_nat (i + 1))),
                   court_code = or_default (read_prop courtInfo ''play_code'') (JStr []),
                   place_code = or_default (read_prop courtInfo ''place_code'') (JStr []),
                   event_code = or_default (read_prop courtInfo ''event_code'') (JStr []),
                   time_slots = slots,
                   available_slots = length (filter slot_available slots),
                   total_slots = length slots,
                   has_availability = (0 < length (filter slot_available slots))\<rparr>))"

fun parse_courts :: "platform \<Rightarrow> nat \<Rightarrow> json list \<Rightarrow> js_error + CourtData list" where
  "parse_courts lib i [] = Inr []"
| "parse_courts lib i (courtInfo # rest) =
     (case court_data lib i courtInfo of
        Inl e \<Rightarrow> Inl e
      | Inr c \<Rightarrow>
          (case parse_courts lib (Suc i) rest of
             Inl e \<Rightarrow> Inl e
           | Inr cs \<Rightarrow> Inr (c # cs)))"

text \<open>The Korean words for year, month and day of \<open>formatted_date\<close>.\<close>

definition ko_year :: string where "ko_year = [CHR 0xEB, CHR 0x85, CHR 0x84]"
definition ko_month :: string where "ko_month = [CHR 0xEC, CHR 0x9B, CHR 0x94]"
definition ko_day :: string where "ko_day = [CHR 0xEC, CHR 0x9D, CHR 0xBC]"

definition slice :: "nat \<Rightarrow> nat \<Rightarrow> string \<Rightarrow> string" where
  "slice a b s = take (b - a) (drop a s)"

text \<open>
  Lines 552-559: the court list. A \<open>play_name\<close> that is a string is parsed, and a parse
  error leaves the empty list; any other truthy value is taken as it is.
\<close>

definition play_data :: "platform \<Rightarrow> json \<Rightarrow> json" where
  "play_data lib data =
     (if truthy (read_prop data ''play_name'') then
        (case read_prop data ''play_name'' of
           Some (JStr s) \<Rightarrow> (case JSON_parse lib s of Inl e \<Rightarrow> JArr [] | Inr v \<Rightarrow> v)
         | Some v \<Rightarrow> v
         | None \<Rightarrow> JArr [])
      else JArr [])"

definition parseAvailabilityData :: "platform \<Rightarrow> string \<Rightarrow> json \<Rightarrow> js_error + AvailabilityResult" where
  "parseAvailabilityData lib dateStr data =
     (if data = JNull then Inl (TypeError ''Cannot read properties of null'')
      else
        (case play_data lib data of
           JArr blocks \<Rightarrow>
             (case parse_courts lib 0 blocks of
                Inl e \<Rightarrow> Inl e
              | Inr cs \<Rightarrow>
                  Inr \<lparr>ar_date = dateStr,
                       formatted_date = Some (slice 0 4 dateStr @ ko_year @ '' '' @ slice 4 6 dateStr
                                              @ ko_month @ '' '' @ slice 6 8 dateStr @ ko_day),
                       ar_status = ''success'',
                       ar_error = None,
                       ar_courts = cs,
                       total_available_slots = Some (sum_list (map available_slots cs)),
                       day_has_availability = Some (0 < sum_list (map available_slots cs))\<rparr>)
         | _ \<Rightarrow> Inl (TypeError ''playData.forEach is not a function'')))"

text \<open>Lines 535-540: the result of the \<open>catch\<close> block.\<close>

definition error_result :: "string \<Rightarrow> js_error \<Rightarrow> AvailabilityResult" where
  "error_result dateStr e =
     \<lparr>ar_date = dateStr, formatted_date = None, ar_status = ''error'',
      ar_error = Some (message e), ar_courts = [],
      total_available_slots = None, day_has_availability = None\<rparr>"

text \<open>\<open>responseText.replace(/^\uFEFF/, '')\<close>, on the UTF-8 bytes of the mark.\<close>

definition strip_bom :: "string \<Rightarrow> string" where
  "strip_bom s = (if take 3 s = [CHR 0xEF, CHR 0xBB, CHR 0xBF] then drop 3 s else s)"

definition checkAvailability ::
  "platform \<Rightarrow> tennis_upstream \<Rightarrow> string \<Rightarrow> crawler \<Rightarrow> AvailabilityResult \<times> crawler" where
  "checkAvailability lib up dateStr s =
     (let s1 = s\<lparr>events := events s @ [Get indexUrl]\<rparr> in
      case index_get up dateStr of
        Inl e \<Rightarrow> (error_result dateStr e, s1)
      | Inr u \<Rightarrow>
          (let s2 = s1\<lparr>events := events s1 @ [Post ajaxUrl [''05'', dateStr, ''23'']]\<rparr> in
           case ajax_post up dateStr of
             Inl e \<Rightarrow> (error_result dateStr e, s2)
           | Inr responseText \<Rightarrow>
               (case (case responseText of
                        JStr t \<Rightarrow> JSON_parse lib (strip_bom t)
                      | _ \<Rightarrow> Inr responseText)
                of Inl e \<Rightarrow> (error_result dateStr e, s2)
                 | Inr result \<Rightarrow>
                     (case parseAvailabilityData lib dateStr result of
                        Inl e \<Rightarrow> (error_result dateStr e, s2)
                      | Inr r \<Rightarrow> (r, s2)))))"

text \<open>
  Lines 633-640, with \<open>lastDay\<close> for the value of \<open>new Date(year, month, 0).getDate()\<close>.
\<close>

definition getMonthDates :: "nat \<Rightarrow> int \<Rightarrow> int \<Rightarrow> string list" where
  "getMonthDates lastDay year month =
     map (\<lambda>day. string_of_int year @ padStart 2 CHR ''0'' (string_of_int month)
                 @ padStart 2 CHR ''0'' (string_of_nat day))
         [1..<Suc lastDay]"

text \<open>Lines 623-628: the loop over the dates, from index \<open>i\<close> on.\<close>

function crawl_dates ::
  "platform \<Rightarrow> tennis_upstream \<Rightarrow> string list \<Rightarrow> rat \<Rightarrow> nat
     \<Rightarrow> AvailabilityResult list \<times> crawler \<Rightarrow> AvailabilityResult list \<times> crawler" where
  "crawl_dates lib up dates delay i (results, s) =
     (if i < length dates then
        (case checkAvailability lib up (dates ! i) s of
           (result, s1) \<Rightarrow>
             crawl_dates lib up dates delay (Suc i)
               (results @ [result],
                if int i < int (length dates) - 1
                then s1\<lparr>events := events s1 @ [Sleep (delay * 1000)]\<rparr>
                else s1))
      else (results, s))"
  by pat_completeness auto
termination
  by (relation "measure (\<lambda>(lib, up, dates, delay, i, rs). length dates - i)") auto

declare crawl_dates.simps [simp del]

definition tennis_crawlMonth ::
  "platform \<Rightarrow> tennis_upstream \<Rightarrow> nat \<Rightarrow> int \<Rightarrow> int \<Rightarrow> rat \<Rightarrow> crawler
     \<Rightarrow> AvailabilityResult list \<times> crawler" where
  "tennis_crawlMonth lib up lastDay year month delay s =
     crawl_dates lib up (getMonthDates lastDay year month) delay 0 ([], s)"


section \<open>The month loop of the tabular crawler (nowon-crawler.ts, crawlMonth)\<close>

datatype facility_name = Bul | Ma | Cho

definition facilities :: "(int \<times> facility_name \<times> string) list" where
  "facilities = [(15, Bul, facility_bul), (16, Ma, facility_ma), (17, Cho, facility_cho)]"

text \<open>\<open>allResults[name].push(...rows)\<close>.\<close>

fun push_rows :: "facility_name \<Rightarrow> CrawlRow list \<Rightarrow> MonthResults \<Rightarrow> MonthResults" where
  "push_rows Bul rows r = r\<lparr>bul := bul r @ rows\<rparr>"
| "push_rows Ma rows r = r\<lparr>ma := ma r @ rows\<rparr>"
| "push_rows Cho rows r = r\<lparr>cho := cho r @ rows\<rparr>"

text \<open>
  Lines 226-238: the loop over the facilities for one day. The pause stands inside the
  \<open>try\<close> block after the call; the \<open>catch\<close> block only prints.
\<close>

fun crawl_facilities ::
  "'n arithmetic \<Rightarrow> 'n nowon_upstream \<Rightarrow> rat \<Rightarrow> string \<Rightarrow> (int \<times> facility_name \<times> string) list
     \<Rightarrow> MonthResults \<times> event list \<Rightarrow> MonthResults \<times> event list" where
  "crawl_facilities ar up delay pickDate [] acc = acc"
| "crawl_facilities ar up delay pickDate ((cate2Val, name, displayName) # fs) (allResults, lg) =
     (case crawlAvailableTimes ar up pickDate cate2Val lg of
        (Inr rows, lg1) \<Rightarrow>
          crawl_facilities ar up delay pickDate fs
            (push_rows name rows allResults,
             if 0 < delay then lg1 @ [Sleep (delay * 1000)] else lg1)
      | (Inl e, lg1) \<Rightarrow>
          crawl_facilities ar up delay pickDate fs (allResults, lg1))"

text \<open>
  Lines 223-241: the loop over the days. \<open>pickDates\<close> are the day texts that the
  \<open>Date\<close> object yields from the first to the last day of the month.
\<close>

fun crawl_days ::
  "'n arithmetic \<Rightarrow> 'n nowon_upstream \<Rightarrow> rat \<Rightarrow> string list \<Rightarrow> MonthResults \<times> event list
     \<Rightarrow> MonthResults \<times> event list" where
  "crawl_days ar up delay [] acc = acc"
| "crawl_days ar up delay (pickDate # rest) acc =
     crawl_days ar up delay rest (crawl_facilities ar up delay pickDate facilities acc)"

definition nowon_crawlMonth ::
  "'n arithmetic \<Rightarrow> 'n nowon_upstream \<Rightarrow> string list \<Rightarrow> rat \<Rightarrow> MonthResults \<times> event list" where
  "nowon_crawlMonth ar up pickDates delay =
     crawl_days ar up delay pickDates (\<lparr>bul = [], ma = [], cho = []\<rparr>, [])"


text \<open>
  A sample platform and two sample upstreams for concrete runs. The platform knows the
  checkbox inputs of two markup fragments and parses no text but \<open>[]\<close>. The first
  upstream answers 20251001 with a court without markup and a court with markup, 20251002
  with a court list whose first block is \<open>null\<close>, 20251003 with a court list that is no
  JSON text, and fails on every other date; the second upstream is down.
\<close>

definition sample_platform :: platform where
  "sample_platform =
     \<lparr>JSON_parse = (\<lambda>s. if s = ''[]'' then Inr (JArr [])
                        else Inl (SyntaxError ''Unexpected token'')),
      select_checkboxes =
        (\<lambda>h. if h = JStr ''<input type=checkbox value=07:00>''
              then Inr [\<lparr>attr_value = Some ''07:00'', attr_disabled = False\<rparr>]
              else if h = JStr ''<input type=checkbox value=09:00><input type=checkbox value=14:00 disabled><input type=checkbox value=06:00>''
              then Inr [\<lparr>attr_value = Some ''09:00'', attr_disabled = False\<rparr>,
                        \<lparr>attr_value = Some ''14:00'', attr_disabled = True\<rparr>,
                        \<lparr>attr_value = Some ''06:00'', attr_disabled = False\<rparr>]
              else Inr [])\<rparr>"

definition sample_tennis_upstream :: tennis_upstream where
  "sample_tennis_upstream =
     \<lparr>index_get = (\<lambda>d. if d = ''20251001'' \<or> d = ''20251002'' \<or> d = ''20251003'' then Inr ()
                       else Inl (AxiosError ''timeout of 10000ms exceeded'')),
      ajax_post =
        (\<lambda>d. if d = ''20251001''
              then Inr (JObj [(''play_name'',
                     JArr [JObj [(''play_name'', JStr ''A''), (''play_code'', JStr ''01'')],
                           JObj [(''play_name'', JStr ''B''),
                                 (''htmlx'', JStr ''<input type=checkbox value=09:00><input type=checkbox value=14:00 disabled><input type=checkbox value=06:00>'')]])])
              else if d = ''20251002''
              then Inr (JObj [(''play_name'',
                     JArr [JNull,
                           JObj [(''play_name'', JStr ''B''),
                                 (''htmlx'', JStr ''<input type=checkbox value=07:00>'')]])])
              else if d = ''20251003''
              then Inr (JObj [(''play_name'', JStr ''<html>busy</html>'')])
              else Inl (AxiosError ''Request failed with status code 500''))\<rparr>"

definition down_upstream :: tennis_upstream where
  "down_upstream =
     \<lparr>index_get = (\<lambda>d. Inl (AxiosError ''timeout of 10000ms exceeded'')),
      ajax_post = (\<lambda>d. Inl (AxiosError ''timeout of 15000ms exceeded''))\<rparr>"


section \<open>Descriptions of a run\<close>

text \<open>
  The requests of one call of \<open>checkAvailability\<close>: the GET of the index page, and the
  POST when the GET returned.
\<close>

definition call_events :: "tennis_upstream \<Rightarrow> string \<Rightarrow> event list" where
  "call_events up dateStr =
     (case index_get up dateStr of
        Inl e \<Rightarrow> [Get indexUrl]
      | Inr u \<Rightarrow> [Get indexUrl, Post ajaxUrl [''05'', dateStr, ''23'']])"

text \<open>Groups of events with a pause between one group and the next, and none at the end.\<close>

fun paced :: "event \<Rightarrow> event list list \<Rightarrow> event list" where
  "paced p [] = []"
| "paced p [g] = g"
| "paced p (g # h # gs) = g @ [p] @ paced p (h # gs)"

text \<open>
  What one pair of a day and a facility adds to the output of the tabular crawler, and the
  events of the pair: the rows and both requests followed by the pause when the schedule
  request returned, no row and the one request when it threw.
\<close>

definition pair_rows :: "'n arithmetic \<Rightarrow> 'n nowon_upstream \<Rightarrow> string \<Rightarrow> int \<Rightarrow> CrawlRow list" where
  "pair_rows ar up pickDate cate2 =
     (case fst (crawlAvailableTimes ar up pickDate cate2 []) of Inl e \<Rightarrow> [] | Inr rows \<Rightarrow> rows)"

definition pair_events :: "'n nowon_upstream \<Rightarrow> rat \<Rightarrow> string \<Rightarrow> int \<Rightarrow> event list" where
  "pair_events up delay pickDate cate2 =
     (case reserve_time_pick up pickDate cate2 of
        Inl e \<Rightarrow> [Post (nowon_baseUrl @ ''/sports/reserve_time_pick'') [pickDate, string_of_int cate2]]
      | Inr r \<Rightarrow>
          [Post (nowon_baseUrl @ ''/sports/reserve_time_pick'') [pickDate, string_of_int cate2],
           Post (nowon_baseUrl @ ''/API'') [''A'', pickDate, string_of_int cate2]]
          @ (if 0 < delay then [Sleep (delay * 1000)] else []))"

definition day_events :: "'n nowon_upstream \<Rightarrow> rat \<Rightarrow> string \<Rightarrow> event list" where
  "day_events up delay pickDate =
     pair_events up delay pickDate 15 @ pair_events up delay pickDate 16
     @ pair_events up delay pickDate 17"

fun is_sleep :: "event \<Rightarrow> bool" where
  "is_sleep (Sleep ms) = True"
| "is_sleep (Get url) = False"
| "is_sleep (Post url form) = False"


section \<open>Properties of the circuit breaker\<close>
lemma fields_after_calls:
  "failure_threshold (after_calls cs b) = failure_threshold b \<and>
   recovery_timeout (after_calls cs b) = recovery_timeout b"
  unfolding after_calls_def
proof (induction cs arbitrary: b)
  case Nil show ?case by simp
next
  case (Cons c cs)
  have "failure_threshold (apply_call c b) = failure_threshold b \<and>
        recovery_timeout (apply_call c b) = recovery_timeout b"
    by (cases c) (simp_all add: isAvailable_def recordSuccess_def recordFailure_def Let_def)
  with Cons.IH [of "apply_call c b"] show ?case by simp
qed

lemma tripped_apply_call: "tripped b \<Longrightarrow> tripped (apply_call c b)"
  by (cases c) (auto simp: tripped_def isAvailable_def recordSuccess_def recordFailure_def Let_def)

lemma tripped_after_calls: "tripped b \<Longrightarrow> tripped (after_calls cs b)"
  unfolding after_calls_def
  by (induction cs arbitrary: b) (simp_all add: tripped_apply_call)

lemma tripped_new: "tripped (new_CircuitBreaker thr rt)"
  by (simp add: tripped_def new_CircuitBreaker_def)

lemma fold_recordFailure_count:
  "failure_count (fold recordFailure ts b) = failure_count b + int (length ts) \<and>
   failure_threshold (fold recordFailure ts b) = failure_threshold b"
  by (induction ts arbitrary: b) (simp_all add: recordFailure_def Let_def)

lemma fold_recordFailure_state:
  "state b = CLOSED \<Longrightarrow> failure_count b = 0 \<Longrightarrow>
   (state (fold recordFailure ts b) = OPEN) = (ts \<noteq> [] \<and> failure_threshold b \<le> int (length ts))"
proof (induction ts rule: rev_induct)
  case Nil then show ?case by simp
next
  case (snoc t ts)
  let ?b = "fold recordFailure ts b"
  have c: "failure_count ?b = int (length ts)" "failure_threshold ?b = failure_threshold b"
    using fold_recordFailure_count [of ts b] snoc.prems by simp_all
  have ih: "(state ?b = OPEN) = (ts \<noteq> [] \<and> failure_threshold b \<le> int (length ts))"
    using snoc by simp
  have step: "(state (recordFailure t ?b) = OPEN) =
      (state ?b = OPEN \<or> failure_threshold ?b \<le> failure_count ?b + 1)"
    by (simp add: recordFailure_def Let_def)
  have "fold recordFailure (ts @ [t]) b = recordFailure t ?b" by simp
  then show ?case using c ih step by auto
qed

lemma half_open_checks:
  "state b = HALF_OPEN \<Longrightarrow> after_calls (map IsAvailable checks) b = b"
  unfolding after_calls_def
  by (induction checks) (simp_all add: isAvailable_def)

text \<open>
  Claim C3, as stated, fails: \<open>HALF_OPEN\<close> does not limit the calls to one. After five
  failures and the recovery time, the check at 605001 moves the breaker to \<open>HALF_OPEN\<close>;
  with no outcome recorded, the checks at 605002 and 605003 are allowed as well and the
  breaker is still \<open>HALF_OPEN\<close>.
\<close>

theorem half_open_lets_every_check_pass:
  "state (after_calls (map RecordFailure [1000, 2000, 3000, 4000, 5000] @ [IsAvailable 605001])
            (new_CircuitBreaker 5 600)) = HALF_OPEN
   \<and> fst (isAvailable 605002
          (after_calls (map RecordFailure [1000, 2000, 3000, 4000, 5000] @ [IsAvailable 605001])
             (new_CircuitBreaker 5 600))) = True
   \<and> fst (isAvailable 605003
          (after_calls (map RecordFailure [1000, 2000, 3000, 4000, 5000]
                        @ [IsAvailable 605001, IsAvailable 605002])
             (new_CircuitBreaker 5 600))) = True
   \<and> state (after_calls (map RecordFailure [1000, 2000, 3000, 4000, 5000]
                        @ [IsAvailable 605001, IsAvailable 605002, IsAvailable 605003])
            (new_CircuitBreaker 5 600)) = HALF_OPEN"
  by (simp add: after_calls_def new_CircuitBreaker_def recordFailure_def Let_def
        isAvailable_def recovery_elapsed_def)

text \<open>
  Claim C3, amended. A breaker that is fresh or has just recorded a success is \<open>OPEN\<close>
  after \<open>n\<close> recorded failures, \<open>n\<close> at least one, exactly when \<open>n\<close> has reached
  \<open>failure_threshold\<close>. For every breaker \<open>b\<close> reached from a fresh one by any history
  of method calls: while \<open>OPEN\<close> a failure time \<open>t\<close> is stored, a check at most
  \<open>recovery_timeout\<close> seconds after \<open>t\<close> is denied and leaves the breaker unchanged, and a
  check later than that, the stored time being a non-zero time stamp, is allowed and moves
  the breaker to \<open>HALF_OPEN\<close>. In \<open>HALF_OPEN\<close> every check is allowed and leaves the
  breaker \<open>HALF_OPEN\<close>, however many checks are made, until an outcome is recorded:
  recording a success gives \<open>CLOSED\<close> with a failure count of 0, recording a failure at
  time \<open>now\<close> gives \<open>OPEN\<close> with the failure time set to \<open>now\<close>, and a check that
  follows such a failure within the recovery timeout is denied.
\<close>

theorem breaker_lifecycle:
  assumes b: "b = after_calls cs (new_CircuitBreaker thr rt)"
  shows "(state (fold recordFailure ts (new_CircuitBreaker thr rt)) = OPEN)
           = (ts \<noteq> [] \<and> thr \<le> int (length ts))
     \<and> (state (fold recordFailure ts (recordSuccess b)) = OPEN)
           = (ts \<noteq> [] \<and> thr \<le> int (length ts))
     \<and> (state b = OPEN \<longrightarrow>
           (\<exists>t. last_failure_time b = Some t
              \<and> (now - t \<le> rt * 1000 \<longrightarrow> isAvailable now b = (False, b))
              \<and> (t \<noteq> 0 \<and> rt * 1000 < now - t \<longrightarrow>
                     isAvailable now b = (True, b\<lparr>state := HALF_OPEN\<rparr>))))
     \<and> (state b = HALF_OPEN \<longrightarrow>
           isAvailable now b = (True, b)
         \<and> after_calls (map IsAvailable checks) b = b
         \<and> recordSuccess b = b\<lparr>failure_count := 0, state := CLOSED\<rparr>
         \<and> state (recordFailure now b) = OPEN
         \<and> last_failure_time (recordFailure now b) = Some now
         \<and> (later - now \<le> rt * 1000 \<longrightarrow>
               isAvailable later (recordFailure now b) = (False, recordFailure now b)))"
proof -
  have f: "failure_threshold b = thr" "recovery_timeout b = rt"
    using fields_after_calls [of cs "new_CircuitBreaker thr rt"] b
    by (simp_all add: new_CircuitBreaker_def)
  have inv: "tripped b"
    using tripped_after_calls [OF tripped_new] b by simp
  have p1: "(state (fold recordFailure ts (new_CircuitBreaker thr rt)) = OPEN)
           = (ts \<noteq> [] \<and> thr \<le> int (length ts))"
    using fold_recordFailure_state [of "new_CircuitBreaker thr rt" ts]
    by (simp add: new_CircuitBreaker_def)
  have p2: "(state (fold recordFailure ts (recordSuccess b)) = OPEN)
           = (ts \<noteq> [] \<and> thr \<le> int (length ts))"
    using fold_recordFailure_state [of "recordSuccess b" ts] f
    by (simp add: recordSuccess_def)
  have p3: "state b = OPEN \<longrightarrow>
           (\<exists>t. last_failure_time b = Some t
              \<and> (now - t \<le> rt * 1000 \<longrightarrow> isAvailable now b = (False, b))
              \<and> (t \<noteq> 0 \<and> rt * 1000 < now - t \<longrightarrow>
                     isAvailable now b = (True, b\<lparr>state := HALF_OPEN\<rparr>)))"
    using inv f by (auto simp: tripped_def isAvailable_def recovery_elapsed_def)
  have p4: "state b = HALF_OPEN \<longrightarrow>
           isAvailable now b = (True, b)
         \<and> recordSuccess b = b\<lparr>failure_count := 0, state := CLOSED\<rparr>
         \<and> state (recordFailure now b) = OPEN
         \<and> last_failure_time (recordFailure now b) = Some now
         \<and> (later - now \<le> rt * 1000 \<longrightarrow>
               isAvailable later (recordFailure now b) = (False, recordFailure now b))"
    using inv f
    by (auto simp: tripped_def isAvailable_def recovery_elapsed_def recordSuccess_def
          recordFailure_def Let_def)
  have p5: "state b = HALF_OPEN \<longrightarrow> after_calls (map IsAvailable checks) b = b"
    using half_open_checks by blast
  from p1 p2 p3 p4 p5 show ?thesis by blast
qed

theorem breaker_lifecycle_witness:
  "state (after_calls (map RecordFailure [1000, 2000, 3000, 4000]) (new_CircuitBreaker 5 600)) = CLOSED
   \<and> state (fold recordFailure [1000, 2000, 3000, 4000, 5000] (new_CircuitBreaker 5 600)) = OPEN
   \<and> state (after_calls (map RecordFailure [1000, 2000, 3000, 4000, 5000]) (new_CircuitBreaker 5 600)) = OPEN
   \<and> fst (isAvailable 605000 (after_calls (map RecordFailure [1000, 2000, 3000, 4000, 5000]) (new_CircuitBreaker 5 600))) = False
   \<and> state (snd (isAvailable 605001 (after_calls (map RecordFailure [1000, 2000, 3000, 4000, 5000]) (new_CircuitBreaker 5 600)))) = HALF_OPEN
   \<and> state (after_calls (map RecordFailure [1000, 2000, 3000, 4000, 5000] @ [IsAvailable 605001]) (new_CircuitBreaker 5 600)) = HALF_OPEN
   \<and> after_calls (map IsAvailable [605002, 605003])
        (after_calls (map RecordFailure [1000, 2000, 3000, 4000, 5000] @ [IsAvailable 605001]) (new_CircuitBreaker 5 600))
      = after_calls (map RecordFailure [1000, 2000, 3000, 4000, 5000] @ [IsAvailable 605001]) (new_CircuitBreaker 5 600)
   \<and> state (recordFailure 606000 (after_calls (map RecordFailure [1000, 2000, 3000, 4000, 5000] @ [IsAvailable 605001]) (new_CircuitBreaker 5 600))) = OPEN
   \<and> fst (isAvailable 1206000 (recordFailure 606000 (after_calls (map RecordFailure [1000, 2000, 3000, 4000, 5000] @ [IsAvailable 605001]) (new_CircuitBreaker 5 600)))) = False"
proof -
  let ?fresh = "new_CircuitBreaker 5 600"
  let ?open = "after_calls (map RecordFailure [1000, 2000, 3000, 4000, 5000]) ?fresh"
  let ?half = "after_calls (map RecordFailure [1000, 2000, 3000, 4000, 5000] @ [IsAvailable 605001]) ?fresh"
  have o: "state ?open = OPEN" "last_failure_time ?open = Some 5000"
    by (simp_all add: after_calls_def new_CircuitBreaker_def recordFailure_def Let_def)
  have h: "state ?half = HALF_OPEN"
    by (simp add: after_calls_def new_CircuitBreaker_def recordFailure_def Let_def
          isAvailable_def recovery_elapsed_def)
  have c: "state (after_calls (map RecordFailure [1000, 2000, 3000, 4000]) ?fresh) = CLOSED"
    by (simp add: after_calls_def new_CircuitBreaker_def recordFailure_def Let_def)
  note t1 = breaker_lifecycle [where b = ?open and thr = 5 and rt = 600
      and cs = "map RecordFailure [1000, 2000, 3000, 4000, 5000]"
      and ts = "[1000, 2000, 3000, 4000, 5000]" and now = 605000, simplified]
  note t1' = breaker_lifecycle [where b = ?open and thr = 5 and rt = 600
      and cs = "map RecordFailure [1000, 2000, 3000, 4000, 5000]"
      and ts = "[1000, 2000, 3000, 4000, 5000]" and now = 605001, simplified]
  note t2 = breaker_lifecycle [where b = ?half and thr = 5 and rt = 600
      and cs = "map RecordFailure [1000, 2000, 3000, 4000, 5000] @ [IsAvailable 605001]"
      and ts = "[]" and now = 606000 and later = 1206000 and checks = "[605002, 605003]"]
  show ?thesis
    using t1 t1' t2 o h c by simp
qed

section \<open>Properties of the tabular crawler\<close>

subsection \<open>Decimal text\<close>

lemma of_char_digit_char: "n < 10 \<Longrightarrow> (of_char (digit_char n) :: nat) = 48 + n"
  by (simp add: digit_char_def)

lemma is_digit_digit_char: "n < 10 \<Longrightarrow> is_digit (digit_char n)"
  by (simp add: is_digit_def of_char_digit_char)

lemma digit_value_digit_char: "n < 10 \<Longrightarrow> digit_value 10 (digit_char n) = Some n"
  by (simp add: digit_value_def of_char_digit_char Let_def)

lemma digits_value_snoc:
  "digits_value r (ds @ [c]) =
     digits_value r ds * r + (case digit_value r c of None \<Rightarrow> 0 | Some d \<Rightarrow> d)"
  by (simp add: digits_value_def)

lemma digits_value_string_of_nat: "digits_value 10 (string_of_nat n) = n"
proof (induction n rule: string_of_nat.induct)
  case (1 n)
  show ?case
  proof (cases "n < 10")
    case True
    then show ?thesis
      using digits_value_snoc [of 10 "[]" "digit_char n"]
      by (simp add: string_of_nat.simps [of n] digit_value_digit_char digits_value_def)
  next
    case False
    then have "digits_value 10 (string_of_nat (n div 10)) = n div 10"
      using "1.IH" by simp
    with False show ?thesis
      by (simp add: string_of_nat.simps [of n] digits_value_snoc digit_value_digit_char)
  qed
qed

lemma string_of_nat_digits: "string_of_nat n \<noteq> [] \<and> list_all is_digit (string_of_nat n)"
proof (induction n rule: string_of_nat.induct)
  case (1 n)
  show ?case
  proof (cases "n < 10")
    case True
    then show ?thesis by (simp add: string_of_nat.simps [of n] is_digit_digit_char)
  next
    case False
    with "1.IH" show ?thesis
      by (simp add: string_of_nat.simps [of n] is_digit_digit_char)
  qed
qed

lemma digits_value_leading_zeros:
  "digits_value 10 (replicate k (CHR ''0'') @ s) = digits_value 10 s"
proof -
  have z: "foldl (\<lambda>a c. a * 10 + (case digit_value 10 c of None \<Rightarrow> 0 | Some d \<Rightarrow> d)) 0
             (replicate k (CHR ''0'')) = 0"
    by (induction k) (simp_all add: digit_value_def Let_def)
  show ?thesis by (simp add: digits_value_def z)
qed

text \<open>The integer is read back from its zero-padded text. \<close>

lemma padded_text_value:
  "(let s = padStart 2 (CHR ''0'') (string_of_int i)
    in if take 1 s = ''-'' then - int (digits_value 10 (drop 1 s)) else int (digits_value 10 s)) = i"
proof (cases "i < 0")
  case True
  let ?t = "string_of_nat (nat (- i))"
  have ne: "?t \<noteq> []" using string_of_nat_digits by blast
  then have len: "2 \<le> length (CHR ''-'' # ?t)" by (cases ?t) simp_all
  have "padStart 2 (CHR ''0'') (string_of_int i) = CHR ''-'' # ?t"
    using True len by (simp add: padStart_def string_of_int_def)
  then show ?thesis using True by (simp add: digits_value_string_of_nat)
next
  case False
  let ?t = "string_of_nat (nat i)"
  have d: "?t \<noteq> []" "list_all is_digit ?t" using string_of_nat_digits by blast+
  let ?p = "padStart 2 (CHR ''0'') ?t"
  have "take 1 ?p \<noteq> ''-''"
  proof (cases "2 - length ?t")
    case 0
    then have "?p = ?t" by (simp add: padStart_def)
    moreover have "take 1 ?t \<noteq> ''-''" using d by (cases ?t) (auto simp: is_digit_def)
    ultimately show ?thesis by simp
  next
    case (Suc k)
    then show ?thesis by (simp add: padStart_def)
  qed
  moreover have "digits_value 10 ?p = nat i"
    by (simp add: padStart_def digits_value_leading_zeros digits_value_string_of_nat)
  ultimately show ?thesis using False by (simp add: string_of_int_def)
qed

lemma padded_text_inj:
  assumes "padStart 2 (CHR ''0'') (string_of_int i) = padStart 2 (CHR ''0'') (string_of_int j)"
  shows "i = j"
  using padded_text_value [of i] padded_text_value [of j] assms by (simp add: Let_def)

lemma is_digit_not_space: "is_digit c \<Longrightarrow> \<not> is_space c"
  by (auto simp: is_digit_def is_space_def)

lemma is_digit_value: "is_digit c \<Longrightarrow> digit_value 10 c \<noteq> None"
  by (auto simp: is_digit_def digit_value_def Let_def)

lemma parseInt_value:
  assumes "all_digits h"
  shows "parseInt h = Some (int (digits_value 10 h))"
proof -
  from assms obtain c cs where h: "h = c # cs" and c: "is_digit c" and cs: "list_all is_digit cs"
    by (cases h) (auto simp: all_digits_def)
  have s1: "dropWhile is_space h = h" using h c by (simp add: is_digit_not_space)
  have sign: "take 1 h \<noteq> ''-''" "take 1 h \<noteq> ''+''" using h c by (auto simp: is_digit_def)
  have hex: "take 2 h \<noteq> ''0x''" "take 2 h \<noteq> ''0X''"
    using h cs by (cases cs; auto simp: is_digit_def)+
  have "\<forall>x\<in>set h. digit_value 10 x \<noteq> None"
    using assms is_digit_value by (simp add: all_digits_def list_all_iff)
  then have tw: "takeWhile (\<lambda>c. digit_value 10 c \<noteq> None) h = h"
    by (simp only: takeWhile_eq_all_conv)
  have ne: "h \<noteq> []" using h by simp
  show ?thesis
    unfolding parseInt_def Let_def s1
    using sign hex tw ne by (simp del: takeWhile_eq_all_conv not_None_eq)
qed

lemma parseInt_digits:
  assumes "all_digits h"
  shows "\<exists>n. parseInt h = Some n \<and> 0 \<le> n"
  using parseInt_value [OF assms] by simp

subsection \<open>The court roster\<close>

lemma roster_17:
  "map court_parts (courts_of 17) =
     [(''1'' @ ko_court, ''30''), (''2'' @ ko_court, ''31''),
      (''3'' @ ko_court, ''32''), (''4'' @ ko_court, ''33'')]"
  by code_simp

lemma roster_15:
  "map court_parts (courts_of 15) =
     [(''1'' @ ko_court, ''18''), (''2'' @ ko_court, ''19''), (''3'' @ ko_court, ''20'')]"
  by code_simp

lemma roster_other:
  assumes "cate2 \<noteq> 17" "cate2 \<noteq> 15"
  shows "map court_parts (courts_of cate2) =
     [(''1'' @ ko_court, ''21''), (''2'' @ ko_court, ''22''), (''3'' @ ko_court, ''23''),
      (''4'' @ ko_court, ''24''), (''5'' @ ko_court, ''25''), (''6'' @ ko_court, ''26''),
      (''7'' @ ko_court, ''27''), (''8'' @ ko_court, ''28''), (''9'' @ ko_court, ''29'')]"
proof -
  have "courts_of cate2 = map (court_entry 20) [0..<9]"
    using assms by (simp add: courts_of_def)
  moreover have "map court_parts (map (court_entry 20) [0..<9]) =
     [(''1'' @ ko_court, ''21''), (''2'' @ ko_court, ''22''), (''3'' @ ko_court, ''23''),
      (''4'' @ ko_court, ''24''), (''5'' @ ko_court, ''25''), (''6'' @ ko_court, ''26''),
      (''7'' @ ko_court, ''27''), (''8'' @ ko_court, ''28''), (''9'' @ ko_court, ''29'')]"
    by code_simp
  ultimately show ?thesis by simp
qed

lemma roster_names_distinct: "distinct (map (fst \<circ> court_parts) (courts_of cate2))"
proof -
  have "distinct (map fst (map court_parts (courts_of cate2)))"
    by (cases "cate2 = 17"; cases "cate2 = 15")
       (simp_all add: roster_17 roster_15 roster_other)
  then show ?thesis by simp
qed

subsection \<open>Rows of the tabular crawler\<close>

lemma court_row_fields:
  "date (court_row d pfx rset s e c) = d"
  "court (court_row d pfx rset s e c) = pfx @ fst (court_parts c)"
  "startTime (court_row d pfx rset s e c) = s"
  "endTime (court_row d pfx rset s e c) = e"
  "(status (court_row d pfx rset s e c) = status_reserved) = (snd (court_parts c) @ '','' @ s \<in> rset)"
  "(status (court_row d pfx rset s e c) = status_available) = (snd (court_parts c) @ '','' @ s \<notin> rset)"
  by (simp_all add: court_row_def court_parts_def Let_def status_reserved_def status_available_def)

lemma set_slot_rows:
  "set (slot_rows ar n st u d pfx rset courts) =
     (\<Union>x\<in>set (loop_starts ar n st u).
        court_row d pfx rset (hour_text ar x) (hour_text ar (plus_num ar x u)) ` set courts)"
  by (induction n arbitrary: st) (simp_all add: Let_def)

lemma slot_rows_member:
  "r \<in> set (slot_rows ar n st u d pfx rset courts) \<Longrightarrow>
   \<exists>x\<in>set (loop_starts ar n st u). \<exists>c\<in>set courts.
      r = court_row d pfx rset (hour_text ar x) (hour_text ar (plus_num ar x u)) c"
  by (auto simp: set_slot_rows)

lemma status_values_differ: "status_available \<noteq> status_reserved"
  by (simp add: status_available_def status_reserved_def)

lemma crawlAvailableTimes_rows:
  "crawlAvailableTimes ar up pickDate cate2 lg = (Inr rows, lg') \<Longrightarrow>
   \<exists>result. reserve_time_pick up pickDate cate2 = Inr result \<and>
     rows = build_rows ar pickDate cate2 result (fst (checkReserve up pickDate cate2 []))"
  by (auto simp: crawlAvailableTimes_def getTimeList_def checkReserve_def split: sum.splits)

subsection \<open>The reserved keys\<close>

lemma reservedSet_entries:
  "(k \<in> reservedSet ar (fst (checkReserve up pickDate cate2 lg))) =
     (\<exists>resp items item. api_reserved up pickDate cate2 = Inr resp \<and> list resp = Some items
         \<and> item \<in> set items \<and> reserved_key ar item = k)"
proof (cases "api_reserved up pickDate cate2")
  case (Inl e)
  then show ?thesis by (simp add: checkReserve_def reservedSet_def reservedList_def)
next
  case (Inr resp)
  show ?thesis
  proof (cases "list resp")
    case None
    with Inr show ?thesis by (simp add: checkReserve_def reservedSet_def reservedList_def)
  next
    case (Some items)
    with Inr show ?thesis
      by (auto simp: checkReserve_def reservedSet_def reservedList_def)
  qed
qed

lemma reserved_key_default:
  "useTimeBegin item = None \<or> useTimeBegin item = Some [] \<Longrightarrow>
   reserved_key ar item = cseq_text (cseq item) @ '',00:00''"
  by (auto simp: reserved_key_def all_digits_def is_digit_def Let_def)

lemma reserved_key_normalized:
  assumes "useTimeBegin item = Some b" and "b \<noteq> []"
      and "list_all is_digit b \<longrightarrow>
             int_text ar (int (digits_value 10 b)) = string_of_nat (digits_value 10 b)"
  shows "reserved_key ar item = cseq_text (cseq item) @ '','' @ normalized_begin b"
proof (cases "list_all is_digit b")
  case True
  then have d: "all_digits b" using assms(2) by (simp add: all_digits_def)
  have "parsed_text ar (parseInt b) = string_of_nat (digits_value 10 b)"
    using assms(3) True by (simp add: parseInt_value [OF d] parsed_text_def)
  then show ?thesis
    using assms d True by (simp add: reserved_key_def normalized_begin_def Let_def)
next
  case False
  then show ?thesis
    using assms by (simp add: reserved_key_def normalized_begin_def all_digits_def Let_def)
qed

text \<open>
  Claim C4. Every row that \<open>crawlAvailableTimes\<close> returns belongs to a court of the
  facility's roster, and its status is the "not bookable" text exactly when the reserved
  list that the upstream returned for the date and the facility holds an entry whose key
  is that court's sequence id, a comma and the row's start text; otherwise, and only then,
  it is the "bookable" text. The key of an entry is its sequence id, a comma and its begin
  time in normal form: 00:00 when the begin time is missing or empty, the two-digit padded
  value followed by :00 when it is a bare integer text (that integer being one the runtime
  prints exactly), and the begin time itself in every other case.
\<close>

theorem tabular_status_iff_reserved:
  assumes "crawlAvailableTimes ar up pickDate cate2 lg = (Inr rows, lg')"
      and "r \<in> set rows"
  shows "(\<exists>c\<in>set (courts_of cate2).
            court r = prefix_of cate2 @ fst (court_parts c)
          \<and> (status r = status_reserved) =
              (\<exists>resp items item. api_reserved up pickDate cate2 = Inr resp
                  \<and> list resp = Some items \<and> item \<in> set items
                  \<and> reserved_key ar item = snd (court_parts c) @ '','' @ startTime r)
          \<and> (status r = status_available) =
              (\<not> (\<exists>resp items item. api_reserved up pickDate cate2 = Inr resp
                  \<and> list resp = Some items \<and> item \<in> set items
                  \<and> reserved_key ar item = snd (court_parts c) @ '','' @ startTime r)))
       \<and> (\<forall>item. useTimeBegin item = None \<or> useTimeBegin item = Some [] \<longrightarrow>
                reserved_key ar item = cseq_text (cseq item) @ '',00:00'')
       \<and> (\<forall>item b. useTimeBegin item = Some b \<and> b \<noteq> []
                  \<and> (list_all is_digit b \<longrightarrow>
                        int_text ar (int (digits_value 10 b)) = string_of_nat (digits_value 10 b))
                  \<longrightarrow>
                reserved_key ar item = cseq_text (cseq item) @ '','' @ normalized_begin b)"
proof -
  from crawlAvailableTimes_rows [OF assms(1)] obtain result where
    rows: "rows = build_rows ar pickDate cate2 result (fst (checkReserve up pickDate cate2 []))"
    by blast
  let ?rset = "reservedSet ar (fst (checkReserve up pickDate cate2 []))"
  from assms(2) rows have "r \<in> set (slot_rows ar (loop_count (parseInt (line result)))
        (useBeginHour result) (hourUnit result) pickDate (prefix_of cate2) ?rset (courts_of cate2))"
    by (simp add: build_rows_def)
  from slot_rows_member [OF this] obtain x c where c: "c \<in> set (courts_of cate2)"
    and r: "r = court_row pickDate (prefix_of cate2) ?rset
                 (hour_text ar x) (hour_text ar (plus_num ar x (hourUnit result))) c"
    by blast
  have rows_part: "\<exists>c\<in>set (courts_of cate2).
            court r = prefix_of cate2 @ fst (court_parts c)
          \<and> (status r = status_reserved) =
              (\<exists>resp items item. api_reserved up pickDate cate2 = Inr resp
                  \<and> list resp = Some items \<and> item \<in> set items
                  \<and> reserved_key ar item = snd (court_parts c) @ '','' @ startTime r)
          \<and> (status r = status_available) =
              (\<not> (\<exists>resp items item. api_reserved up pickDate cate2 = Inr resp
                  \<and> list resp = Some items \<and> item \<in> set items
                  \<and> reserved_key ar item = snd (court_parts c) @ '','' @ startTime r))"
    by (rule bexI [OF _ c]) (simp only: r court_row_fields reservedSet_entries simp_thms)
  from rows_part reserved_key_default reserved_key_normalized show ?thesis by blast
qed

theorem tabular_status_iff_reserved_witness:
  "reserved_key exact_arithmetic \<lparr>cseq = Some (CseqNumber 18), useTimeBegin = Some ''8''\<rparr>
     = ''18,08:00''
   \<and> status_reserved \<noteq> status_available
   \<and> (\<exists>c\<in>set (courts_of 15).
          ''1'' @ ko_court = prefix_of 15 @ fst (court_parts c)
        \<and> (\<exists>resp items item. api_reserved sample_upstream ''2025-10-01'' 15 = Inr resp
              \<and> list resp = Some items \<and> item \<in> set items
              \<and> reserved_key exact_arithmetic item = snd (court_parts c) @ '','' @ ''08:00''))"
proof -
  let ?row = "\<lparr>date = ''2025-10-01'', court = ''1'' @ ko_court, startTime = ''08:00'',
          endTime = ''09:00'', status = status_reserved\<rparr>"
  let ?rows = "build_rows exact_arithmetic ''2025-10-01'' 15
          \<lparr>useBeginHour = 8, hourUnit = 1, line = ''2''\<rparr>
          \<lparr>list = Some [\<lparr>cseq = Some (CseqNumber 18), useTimeBegin = Some ''8''\<rparr>,
                       \<lparr>cseq = Some (CseqString ''19''), useTimeBegin = None\<rparr>]\<rparr>"
  have call: "crawlAvailableTimes exact_arithmetic sample_upstream ''2025-10-01'' 15 [] =
      (Inr ?rows,
       [Post (nowon_baseUrl @ ''/sports/reserve_time_pick'') [''2025-10-01'', string_of_int 15],
        Post (nowon_baseUrl @ ''/API'') [''A'', ''2025-10-01'', string_of_int 15]])"
    by (simp add: crawlAvailableTimes_def getTimeList_def checkReserve_def sample_upstream_def)
  have row: "?row \<in> set ?rows"
    by code_simp
  let ?item = "\<lparr>cseq = Some (CseqNumber 18), useTimeBegin = Some ''8''\<rparr>"
  have exact: "useTimeBegin ?item = Some ''8'' \<and> ''8'' \<noteq> []
      \<and> (list_all is_digit ''8'' \<longrightarrow>
            int_text exact_arithmetic (int (digits_value 10 ''8'')) = string_of_nat (digits_value 10 ''8''))"
    by (simp add: exact_arithmetic_def string_of_int_def)
  have rendered: "cseq_text (cseq ?item) @ '','' @ normalized_begin ''8'' = ''18,08:00''"
    by code_simp
  note facts = tabular_status_iff_reserved [OF call row]
  from facts have "\<forall>item b. useTimeBegin item = Some b \<and> b \<noteq> []
        \<and> (list_all is_digit b \<longrightarrow>
              int_text exact_arithmetic (int (digits_value 10 b)) = string_of_nat (digits_value 10 b))
        \<longrightarrow> reserved_key exact_arithmetic item = cseq_text (cseq item) @ '','' @ normalized_begin b"
    by (elim conjE)
  then have "reserved_key exact_arithmetic ?item = cseq_text (cseq ?item) @ '','' @ normalized_begin ''8''"
    using exact by blast
  with rendered have key: "reserved_key exact_arithmetic ?item = ''18,08:00''"
    by simp
  have ne: "status_reserved \<noteq> status_available"
    by (simp add: status_available_def status_reserved_def)
  from facts key ne show ?thesis by simp
qed

subsection \<open>Distinct slots\<close>

lemma slot_key_court_row:
  "slot_key (court_row d pfx rset s e c) = (pfx @ fst (court_parts c), s)"
  by (simp add: slot_key_def court_row_fields)

lemma slot_keys_of_rows:
  "set (map slot_key (slot_rows ar n st u d pfx rset courts)) =
     (\<lambda>c. pfx @ fst (court_parts c)) ` set courts \<times> hour_text ar ` set (loop_starts ar n st u)"
  by (induction n arbitrary: st) (auto simp: Let_def slot_key_court_row)

lemma slot_rows_distinct_iff:
  assumes names: "distinct (map (fst \<circ> court_parts) courts)" and ne: "courts \<noteq> []"
  shows "distinct (map slot_key (slot_rows ar n st u d pfx rset courts))
         = distinct (map (hour_text ar) (loop_starts ar n st u))"
proof (induction n arbitrary: st)
  case 0
  show ?case by simp
next
  case (Suc n)
  let ?A = "map (court_row d pfx rset (hour_text ar st) (hour_text ar (plus_num ar st u))) courts"
  let ?B = "slot_rows ar n (plus_num ar st u) u d pfx rset courts"
  let ?T = "loop_starts ar n (plus_num ar st u) u"
  have "inj_on (\<lambda>x. (pfx @ x, hour_text ar st)) (set (map (fst \<circ> court_parts) courts))"
    by (simp add: inj_on_def)
  with names have "distinct (map (\<lambda>x. (pfx @ x, hour_text ar st)) (map (fst \<circ> court_parts) courts))"
    by (simp only: distinct_map simp_thms)
  then have dA: "distinct (map slot_key ?A)"
    by (simp add: slot_key_court_row comp_def)
  have kA: "set (map slot_key ?A) = (\<lambda>c. pfx @ fst (court_parts c)) ` set courts \<times> {hour_text ar st}"
    by (auto simp: slot_key_court_row)
  have kB: "set (map slot_key ?B) =
      (\<lambda>c. pfx @ fst (court_parts c)) ` set courts \<times> hour_text ar ` set ?T"
    by (rule slot_keys_of_rows)
  have labels: "(\<lambda>c. pfx @ fst (court_parts c)) ` set courts \<noteq> {}" using ne by simp
  have disj: "(set (map slot_key ?A) \<inter> set (map slot_key ?B) = {})
        = (hour_text ar st \<notin> hour_text ar ` set ?T)"
  proof -
    have "set (map slot_key ?A) \<inter> set (map slot_key ?B)
        = (\<lambda>c. pfx @ fst (court_parts c)) ` set courts \<times> ({hour_text ar st} \<inter> hour_text ar ` set ?T)"
      unfolding kA kB by (simp only: Times_Int_Times Int_absorb)
    then show ?thesis using labels by (simp only: Times_empty) simp
  qed
  have "slot_rows ar (Suc n) st u d pfx rset courts = ?A @ ?B" by (simp add: Let_def)
  then have "distinct (map slot_key (slot_rows ar (Suc n) st u d pfx rset courts))
      = (distinct (map slot_key ?A) \<and> distinct (map slot_key ?B)
         \<and> set (map slot_key ?A) \<inter> set (map slot_key ?B) = {})"
    by (simp only: map_append distinct_append)
  also have "\<dots> = (distinct (map (hour_text ar) ?T) \<and> hour_text ar st \<notin> hour_text ar ` set ?T)"
    by (simp only: dA Suc.IH [of "plus_num ar st u"] disj simp_thms)
  also have "\<dots> = distinct (map (hour_text ar) (loop_starts ar (Suc n) st u))"
    by (simp only: loop_starts.simps list.map distinct.simps set_map conj_commute)
  finally show ?case .
qed

lemma courts_of_nonempty: "courts_of cate2 \<noteq> []"
  by (simp add: courts_of_def)

text \<open>
  When the additions of the loop are exact and the floored hours print in decimal, both on
  the values the loop meets, a unit of at least one hour gives every pass its own text.
\<close>

lemma loop_starts_lower:
  assumes exact: "\<forall>x\<in>set (loop_starts ar n st u). val (plus_num ar x u) = val x + val u"
      and u: "(1::rat) \<le> val u"
  shows "\<forall>y\<in>set (loop_starts ar n st u). val st \<le> val y"
  using exact
proof (induction n arbitrary: st)
  case 0
  show ?case by simp
next
  case (Suc n)
  then have here: "val (plus_num ar st u) = val st + val u"
    and rest: "\<forall>x\<in>set (loop_starts ar n (plus_num ar st u) u). val (plus_num ar x u) = val x + val u"
    by simp_all
  from Suc.IH [OF rest] have "\<forall>y\<in>set (loop_starts ar n (plus_num ar st u) u). val st + val u \<le> val y"
    using here by simp
  then show ?case using u by fastforce
qed

lemma loop_texts_distinct:
  assumes exact: "\<forall>x\<in>set (loop_starts ar n st u).
                    floor_text ar x = string_of_int \<lfloor>val x\<rfloor>
                    \<and> val (plus_num ar x u) = val x + val u"
      and u: "(1::rat) \<le> val u"
  shows "distinct (map (hour_text ar) (loop_starts ar n st u))"
  using exact
proof (induction n arbitrary: st)
  case 0
  show ?case by simp
next
  case (Suc n)
  let ?T = "loop_starts ar n (plus_num ar st u) u"
  from Suc.prems have here: "floor_text ar st = string_of_int \<lfloor>val st\<rfloor>"
      "val (plus_num ar st u) = val st + val u"
    and rest: "\<forall>x\<in>set ?T. floor_text ar x = string_of_int \<lfloor>val x\<rfloor>
                    \<and> val (plus_num ar x u) = val x + val u"
    by simp_all
  have low: "\<forall>y\<in>set ?T. val st + val u \<le> val y"
    using loop_starts_lower [of ar n "plus_num ar st u" u val] rest u here by simp
  have "hour_text ar st \<noteq> hour_text ar y" if y: "y \<in> set ?T" for y
  proof
    assume eq: "hour_text ar st = hour_text ar y"
    have "floor_text ar y = string_of_int \<lfloor>val y\<rfloor>" using rest y by blast
    with eq here have "padStart 2 (CHR ''0'') (string_of_int \<lfloor>val st\<rfloor>)
        = padStart 2 (CHR ''0'') (string_of_int \<lfloor>val y\<rfloor>)"
      by (simp add: hour_text_def)
    then have fl: "\<lfloor>val st\<rfloor> = \<lfloor>val y\<rfloor>" by (rule padded_text_inj)
    have "val st + 1 \<le> val y" using low y u by fastforce
    then have "\<lfloor>val st + 1\<rfloor> \<le> \<lfloor>val y\<rfloor>" by (rule floor_mono)
    with fl show False by simp
  qed
  then have "hour_text ar st \<notin> hour_text ar ` set ?T" by blast
  moreover have "distinct (map (hour_text ar) ?T)" by (rule Suc.IH [OF rest])
  ultimately show ?case by simp
qed

text \<open>
  Claim C7, as stated, fails: with an hour unit of one half the intervals starting at 8 and
  at 8.5 both carry the start text 08:00, so each court has two rows with the same start.
  The numbers 8, 8.5 and 9 are doubles and their sums are exact, so the run of the code is
  the one computed here.
\<close>

theorem tabular_slots_not_distinct_half_hours:
  "\<not> distinct (map slot_key
       (build_rows exact_arithmetic ''2025-10-15'' 15
          \<lparr>useBeginHour = 8, hourUnit = 1 / 2, line = ''2''\<rparr> \<lparr>list = None\<rparr>))"
  by code_simp

text \<open>
  Claim C7, amended. Whatever the arithmetic of the runtime does, the rows generated for
  one facility and one date are pairwise distinct in the pair of court label and start text
  exactly when the start texts of the generated intervals are pairwise distinct. They are
  when, on the values the loop meets, the additions are exact and the floored hours print
  in decimal (\<open>val\<close> reads a number as the rational it stands for) and the hour unit
  is at least one hour, fractional or not; they are not in general, as with a unit of one
  half.
\<close>

theorem tabular_slots_distinct_iff_texts:
  "distinct (map slot_key (build_rows ar pickDate cate2 result reserved))
     = distinct (map (hour_text ar)
         (loop_starts ar (loop_count (parseInt (line result))) (useBeginHour result) (hourUnit result)))
   \<and> ((\<forall>x\<in>set (loop_starts ar (loop_count (parseInt (line result))) (useBeginHour result)
                    (hourUnit result)).
          floor_text ar x = string_of_int \<lfloor>val x\<rfloor>
          \<and> val (plus_num ar x (hourUnit result)) = val x + val (hourUnit result))
        \<and> (1::rat) \<le> val (hourUnit result)
       \<longrightarrow> distinct (map slot_key (build_rows ar pickDate cate2 result reserved)))"
proof -
  have iff: "distinct (map slot_key (build_rows ar pickDate cate2 result reserved))
     = distinct (map (hour_text ar)
         (loop_starts ar (loop_count (parseInt (line result))) (useBeginHour result) (hourUnit result)))"
    unfolding build_rows_def
    by (rule slot_rows_distinct_iff [OF roster_names_distinct courts_of_nonempty])
  show ?thesis
    using iff loop_texts_distinct [of ar "loop_count (parseInt (line result))" "useBeginHour result"
        "hourUnit result" val]
    by blast
qed

theorem tabular_slots_distinct_iff_texts_witness:
  "distinct (map slot_key
       (build_rows exact_arithmetic ''2025-10-15'' 17
          \<lparr>useBeginHour = 8, hourUnit = 3 / 2, line = ''4''\<rparr> \<lparr>list = None\<rparr>))
   \<and> map (hour_text exact_arithmetic) (loop_starts exact_arithmetic 4 8 (3 / 2))
       = [''08:00'', ''09:00'', ''11:00'', ''12:00'']"
proof -
  let ?res = "\<lparr>useBeginHour = 8, hourUnit = 3 / 2, line = ''4''\<rparr> :: rat TimeListResponse"
  have n: "loop_count (parseInt (line ?res)) = 4" by code_simp
  have ex: "\<forall>x\<in>set (loop_starts exact_arithmetic (loop_count (parseInt (line ?res)))
                 (useBeginHour ?res) (hourUnit ?res)).
          floor_text exact_arithmetic x = string_of_int \<lfloor>id x\<rfloor>
          \<and> id (plus_num exact_arithmetic x (hourUnit ?res)) = id x + id (hourUnit ?res)"
    by (simp add: exact_arithmetic_def)
  have u: "(1::rat) \<le> id (hourUnit ?res)" by simp
  have t: "map (hour_text exact_arithmetic) (loop_starts exact_arithmetic 4 8 (3 / 2))
       = [''08:00'', ''09:00'', ''11:00'', ''12:00'']"
    by code_simp
  from tabular_slots_distinct_iff_texts [of exact_arithmetic "''2025-10-15''" 17 ?res
      "\<lparr>list = None\<rparr>" id]
    ex u t
  show ?thesis by blast
qed

subsection \<open>Entries without a begin time\<close>

text \<open>
  Claim C10. A reserved entry without a begin time gets the key made of its sequence id
  and 00:00, the key is in the reserved-key set, the call succeeds, and every returned row
  of the court with that sequence id whose start text is 00:00 is marked "not bookable".
\<close>

theorem default_begin_time_key:
  assumes "reserve_time_pick up pickDate cate2 = Inr result"
      and "api_reserved up pickDate cate2 = Inr reserved"
      and "list reserved = Some items"
      and "item \<in> set items"
      and "useTimeBegin item = None"
  shows "reserved_key ar item = cseq_text (cseq item) @ '',00:00''
       \<and> reserved_key ar item \<in> reservedSet ar reserved
       \<and> (\<exists>rows lg'. crawlAvailableTimes ar up pickDate cate2 lg = (Inr rows, lg')
            \<and> (\<forall>r\<in>set rows. \<forall>c\<in>set (courts_of cate2).
                  court r = prefix_of cate2 @ fst (court_parts c)
                  \<and> snd (court_parts c) = cseq_text (cseq item)
                  \<and> startTime r = ''00:00''
                  \<longrightarrow> status r = status_reserved))"
proof -
  have key: "reserved_key ar item = cseq_text (cseq item) @ '',00:00''"
    using assms(5) by (simp add: reserved_key_default)
  have mem: "reserved_key ar item \<in> reservedSet ar reserved"
    using assms(3,4) by (simp add: reservedSet_def reservedList_def)
  let ?rows = "build_rows ar pickDate cate2 result reserved"
  have call: "crawlAvailableTimes ar up pickDate cate2 lg =
        (Inr ?rows, lg @ [Post (nowon_baseUrl @ ''/sports/reserve_time_pick'') [pickDate, string_of_int cate2],
                          Post (nowon_baseUrl @ ''/API'') [''A'', pickDate, string_of_int cate2]])"
    using assms(1,2) by (simp add: crawlAvailableTimes_def getTimeList_def checkReserve_def)
  have marks: "status r = status_reserved"
    if r: "r \<in> set ?rows" and c: "c \<in> set (courts_of cate2)"
      and lab: "court r = prefix_of cate2 @ fst (court_parts c)"
      and seq: "snd (court_parts c) = cseq_text (cseq item)"
      and st: "startTime r = ''00:00''" for r c
  proof -
    from r have "r \<in> set (slot_rows ar (loop_count (parseInt (line result)))
        (useBeginHour result) (hourUnit result) pickDate (prefix_of cate2)
        (reservedSet ar reserved) (courts_of cate2))"
      by (simp add: build_rows_def)
    from slot_rows_member [OF this] obtain x c' where c': "c' \<in> set (courts_of cate2)"
      and rr: "r = court_row pickDate (prefix_of cate2) (reservedSet ar reserved)
                 (hour_text ar x) (hour_text ar (plus_num ar x (hourUnit result))) c'"
      by blast
    from lab rr have "fst (court_parts c') = fst (court_parts c)"
      by (simp add: court_row_fields)
    with roster_names_distinct [of cate2] c c' have "c' = c"
      by (auto simp: distinct_map inj_on_def)
    moreover from st rr have "hour_text ar x = ''00:00''"
      by (simp add: court_row_fields)
    ultimately show ?thesis using rr seq key mem by (simp add: court_row_fields)
  qed
  from key mem call marks show ?thesis by blast
qed

theorem default_begin_time_key_witness:
  "reserved_key exact_arithmetic \<lparr>cseq = Some (CseqString ''19''), useTimeBegin = None\<rparr>
     = ''19,00:00''
   \<and> (\<exists>rows lg'. crawlAvailableTimes exact_arithmetic sample_upstream ''2025-10-02'' 15 [] = (Inr rows, lg')
        \<and> \<lparr>date = ''2025-10-02'', court = ''2'' @ ko_court, startTime = ''00:00'',
             endTime = ''01:00'', status = status_reserved\<rparr> \<in> set rows
        \<and> (\<forall>r\<in>set rows. \<forall>c\<in>set (courts_of 15).
              court r = prefix_of 15 @ fst (court_parts c)
              \<and> snd (court_parts c) = ''19'' \<and> startTime r = ''00:00''
              \<longrightarrow> status r = status_reserved))"
proof -
  let ?item = "\<lparr>cseq = Some (CseqString ''19''), useTimeBegin = None\<rparr>"
  let ?items = "[\<lparr>cseq = Some (CseqNumber 18), useTimeBegin = Some ''8''\<rparr>, ?item]"
  let ?sched = "\<lparr>useBeginHour = 0, hourUnit = 3 / 2, line = ''2''\<rparr> :: rat TimeListResponse"
  have a1: "reserve_time_pick sample_upstream ''2025-10-02'' 15 = Inr ?sched"
    by (simp add: sample_upstream_def)
  have a2: "api_reserved sample_upstream ''2025-10-02'' 15 = Inr \<lparr>list = Some ?items\<rparr>"
    by (simp add: sample_upstream_def)
  have a3: "list \<lparr>list = Some ?items\<rparr> = Some ?items" by simp
  have a4: "?item \<in> set ?items" by simp
  have a5: "useTimeBegin ?item = None" by simp
  have call: "crawlAvailableTimes exact_arithmetic sample_upstream ''2025-10-02'' 15 [] =
      (Inr (build_rows exact_arithmetic ''2025-10-02'' 15 ?sched \<lparr>list = Some ?items\<rparr>),
       [Post (nowon_baseUrl @ ''/sports/reserve_time_pick'') [''2025-10-02'', string_of_int 15],
        Post (nowon_baseUrl @ ''/API'') [''A'', ''2025-10-02'', string_of_int 15]])"
    by (simp add: crawlAvailableTimes_def getTimeList_def checkReserve_def sample_upstream_def)
  have row: "\<lparr>date = ''2025-10-02'', court = ''2'' @ ko_court, startTime = ''00:00'',
             endTime = ''01:00'', status = status_reserved\<rparr>
        \<in> set (build_rows exact_arithmetic ''2025-10-02'' 15 ?sched \<lparr>list = Some ?items\<rparr>)"
    by code_simp
  have seq19: "cseq_text (cseq ?item) = ''19''" by (simp add: cseq_text_def)
  from default_begin_time_key [OF a1 a2 a3 a4 a5, of exact_arithmetic "[]"] call row seq19
  show ?thesis by auto
qed

section \<open>Properties of the export\<close>

subsection \<open>The stable sort\<close>

lemma mset_insert_sorted: "mset (insert_sorted cmp x ys) = add_mset x (mset ys)"
  by (induction ys) simp_all

lemma set_insert_sorted: "set (insert_sorted cmp x ys) = insert x (set ys)"
  by (induction ys) auto

lemma mset_array_sort: "mset (array_sort cmp xs) = mset xs"
  unfolding array_sort_def by (induction xs) (simp_all add: mset_insert_sorted)

lemma set_array_sort: "set (array_sort cmp xs) = set xs"
  unfolding array_sort_def by (induction xs) (simp_all add: set_insert_sorted)

lemma sorted_insert_sorted:
  assumes total: "\<And>a b. a \<in> S \<Longrightarrow> b \<in> S \<Longrightarrow> cmp a b \<le> 0 \<or> cmp b a \<le> 0"
      and trans: "\<And>a b c. a \<in> S \<Longrightarrow> b \<in> S \<Longrightarrow> c \<in> S \<Longrightarrow>
                    cmp a b \<le> 0 \<Longrightarrow> cmp b c \<le> 0 \<Longrightarrow> cmp a c \<le> 0"
      and x: "x \<in> S"
  shows "set ys \<subseteq> S \<Longrightarrow> sorted_wrt (\<lambda>a b. cmp a b \<le> 0) ys \<Longrightarrow>
         sorted_wrt (\<lambda>a b. cmp a b \<le> 0) (insert_sorted cmp x ys)"
proof (induction ys)
  case Nil
  show ?case by simp
next
  case (Cons y ys)
  then have y: "y \<in> S" and ys: "set ys \<subseteq> S" by simp_all
  show ?case
  proof (cases "cmp x y \<le> 0")
    case True
    have "\<forall>z\<in>set ys. cmp x z \<le> 0"
    proof
      fix z assume z: "z \<in> set ys"
      with Cons.prems have "cmp y z \<le> 0" by simp
      with True show "cmp x z \<le> 0" using trans [OF x y] z ys by blast
    qed
    with True Cons.prems show ?thesis by simp
  next
    case False
    then have yx: "cmp y x \<le> 0" using total [OF x y] by simp
    have "sorted_wrt (\<lambda>a b. cmp a b \<le> 0) (insert_sorted cmp x ys)"
      using Cons.IH ys Cons.prems by simp
    moreover have "\<forall>z\<in>set (insert_sorted cmp x ys). cmp y z \<le> 0"
      using yx Cons.prems by (simp add: set_insert_sorted)
    ultimately show ?thesis using False by simp
  qed
qed

lemma sorted_array_sort:
  assumes total: "\<And>a b. a \<in> S \<Longrightarrow> b \<in> S \<Longrightarrow> cmp a b \<le> 0 \<or> cmp b a \<le> 0"
      and trans: "\<And>a b c. a \<in> S \<Longrightarrow> b \<in> S \<Longrightarrow> c \<in> S \<Longrightarrow>
                    cmp a b \<le> 0 \<Longrightarrow> cmp b c \<le> 0 \<Longrightarrow> cmp a c \<le> 0"
  shows "set xs \<subseteq> S \<Longrightarrow> sorted_wrt (\<lambda>a b. cmp a b \<le> 0) (array_sort cmp xs)"
proof (induction xs)
  case Nil
  show ?case by (simp add: array_sort_def)
next
  case (Cons x xs)
  have "set (array_sort cmp xs) \<subseteq> S" using Cons.prems by (simp add: set_array_sort)
  moreover have "sorted_wrt (\<lambda>a b. cmp a b \<le> 0) (array_sort cmp xs)"
    using Cons by simp
  moreover have "x \<in> S" using Cons.prems by simp
  ultimately have "sorted_wrt (\<lambda>a b. cmp a b \<le> 0) (insert_sorted cmp x (array_sort cmp xs))"
    using sorted_insert_sorted [of S cmp x "array_sort cmp xs"] total trans by blast
  then show ?case by (simp add: array_sort_def)
qed

lemma filter_insert_sorted:
  assumes eq: "\<And>y. y \<in> set ys \<Longrightarrow> key y = key x \<Longrightarrow> cmp x y \<le> 0"
  shows "filter (\<lambda>r. key r = k) (insert_sorted cmp x ys) =
         (if key x = k then x # filter (\<lambda>r. key r = k) ys else filter (\<lambda>r. key r = k) ys)"
  using eq
proof (induction ys)
  case Nil
  show ?case by simp
next
  case (Cons y ys)
  show ?case
  proof (cases "cmp x y \<le> 0")
    case True
    then show ?thesis by simp
  next
    case False
    then have "key y \<noteq> key x" using Cons.prems [of y] by auto
    moreover have "filter (\<lambda>r. key r = k) (insert_sorted cmp x ys) =
         (if key x = k then x # filter (\<lambda>r. key r = k) ys else filter (\<lambda>r. key r = k) ys)"
      using Cons.IH Cons.prems by simp
    ultimately show ?thesis using False by auto
  qed
qed

lemma filter_array_sort:
  assumes eq: "\<And>x y. x \<in> set xs \<Longrightarrow> y \<in> set xs \<Longrightarrow> key y = key x \<Longrightarrow> cmp x y \<le> 0"
  shows "filter (\<lambda>r. key r = k) (array_sort cmp xs) = filter (\<lambda>r. key r = k) xs"
  using eq
proof (induction xs)
  case Nil
  show ?case by (simp add: array_sort_def)
next
  case (Cons x xs)
  have ih: "filter (\<lambda>r. key r = k) (array_sort cmp xs) = filter (\<lambda>r. key r = k) xs"
    using Cons.IH Cons.prems by simp
  have "filter (\<lambda>r. key r = k) (insert_sorted cmp x (array_sort cmp xs)) =
      (if key x = k then x # filter (\<lambda>r. key r = k) (array_sort cmp xs)
       else filter (\<lambda>r. key r = k) (array_sort cmp xs))"
    by (rule filter_insert_sorted) (use Cons.prems in \<open>simp add: set_array_sort\<close>)
  then show ?case using ih by (simp add: array_sort_def)
qed

subsection \<open>A collation by character code\<close>

lemma code_compare_total: "code_compare a b \<le> 0 \<or> code_compare b a \<le> 0"
  by (induction a b rule: code_compare.induct) auto

lemma of_char_nat_inj: "(of_char x :: nat) = of_char y \<Longrightarrow> x = y"
  by simp

lemma code_compare_antisym: "code_compare a b \<le> 0 \<Longrightarrow> code_compare b a \<le> 0 \<Longrightarrow> a = b"
proof (induction a b rule: code_compare.induct)
  case (4 x xs y ys)
  have k: "\<not> (of_char x :: nat) < of_char y" "\<not> (of_char y :: nat) < of_char x"
    using "4.prems" by (simp_all split: if_splits)
  then have "(of_char x :: nat) = of_char y" by linarith
  then have xy: "x = y" by (rule of_char_nat_inj)
  with k "4.prems" "4.IH" have "xs = ys" by simp
  with xy show ?case by simp
qed simp_all


lemma code_compare_Cons_le:
  "(code_compare (x # xs) (y # ys) \<le> 0) =
     ((of_char x :: nat) < of_char y \<or> ((of_char x :: nat) = of_char y \<and> code_compare xs ys \<le> 0))"
proof (cases "x = y")
  case True
  then show ?thesis by simp
next
  case False
  then have "(of_char x :: nat) \<noteq> of_char y" by simp
  then show ?thesis by (simp del: of_char_eq_iff)
qed

lemma code_compare_trans:
  "code_compare a b \<le> 0 \<Longrightarrow> code_compare b c \<le> 0 \<Longrightarrow> code_compare a c \<le> 0"
proof (induction a arbitrary: b c)
  case Nil
  then show ?case by (cases c) simp_all
next
  case (Cons x xs)
  from Cons.prems(1) obtain y ys where b: "b = y # ys" by (cases b) simp_all
  from Cons.prems(2) b obtain z zs where c: "c = z # zs" by (cases c) simp_all
  from Cons.prems(1) b have xy: "(of_char x :: nat) < of_char y \<or>
      ((of_char x :: nat) = of_char y \<and> code_compare xs ys \<le> 0)"
    by (simp only: code_compare_Cons_le)
  from Cons.prems(2) b c have yz: "(of_char y :: nat) < of_char z \<or>
      ((of_char y :: nat) = of_char z \<and> code_compare ys zs \<le> 0)"
    by (simp only: code_compare_Cons_le)
  have "(of_char x :: nat) < of_char z \<or>
      ((of_char x :: nat) = of_char z \<and> code_compare xs zs \<le> 0)"
    using xy yz Cons.IH [of ys zs] by linarith
  then show ?case unfolding c by (simp only: code_compare_Cons_le)
qed

lemma linear_on_code_compare: "linear_on ks code_compare"
  unfolding linear_on_def
proof (intro ballI conjI impI)
  fix a b
  show "code_compare a b \<le> 0 \<or> code_compare b a \<le> 0" by (rule code_compare_total)
next
  fix a b
  assume "code_compare a b \<le> 0 \<and> code_compare b a \<le> 0"
  then show "a = b" using code_compare_antisym by blast
next
  fix a b c
  assume "code_compare a b \<le> 0 \<and> code_compare b c \<le> 0"
  then show "code_compare a c \<le> 0" using code_compare_trans by blast
qed

subsection \<open>The comparator of the export\<close>

lemma compare_rows_le: "(compare_rows lc a b \<le> 0) = canonical_le lc a b"
  by (simp add: compare_rows_def canonical_le_def)

lemma key_strings_member:
  "r \<in> set rs \<Longrightarrow>
   date r \<in> set (key_strings rs) \<and> facility r \<in> set (key_strings rs) \<and>
   court r \<in> set (key_strings rs) \<and> startTime r \<in> set (key_strings rs)"
  by (induction rs) (auto simp: key_strings_def)

lemma lex_total:
  assumes "R x y \<or> R y x" and "x = y \<Longrightarrow> P \<or> Q"
  shows "(x \<noteq> y \<and> R x y \<or> x = y \<and> P) \<or> (y \<noteq> x \<and> R y x \<or> y = x \<and> Q)"
  using assms by blast

lemma lex_trans:
  assumes anti: "R x y \<Longrightarrow> R y x \<Longrightarrow> x = y"
      and trans: "R x y \<Longrightarrow> R y z \<Longrightarrow> R x z"
      and rest: "P \<Longrightarrow> Q \<Longrightarrow> S"
      and xy: "x \<noteq> y \<and> R x y \<or> x = y \<and> P"
      and yz: "y \<noteq> z \<and> R y z \<or> y = z \<and> Q"
  shows "x \<noteq> z \<and> R x z \<or> x = z \<and> S"
  using assms by blast

lemma canonical_le_total:
  assumes lin: "linear_on (key_strings rs) lc" and a: "a \<in> set rs" and b: "b \<in> set rs"
  shows "canonical_le lc a b \<or> canonical_le lc b a"
proof -
  note ka = key_strings_member [OF a] and kb = key_strings_member [OF b]
  have t: "\<And>s t. s \<in> set (key_strings rs) \<Longrightarrow> t \<in> set (key_strings rs) \<Longrightarrow>
             lc s t \<le> 0 \<or> lc t s \<le> 0"
    using lin unfolding linear_on_def by blast
  have t1: "lc (date a) (date b) \<le> 0 \<or> lc (date b) (date a) \<le> 0"
    using t ka kb by blast
  have t2: "lc (facility a) (facility b) \<le> 0 \<or> lc (facility b) (facility a) \<le> 0"
    using t ka kb by blast
  have t3: "lc (court a) (court b) \<le> 0 \<or> lc (court b) (court a) \<le> 0"
    using t ka kb by blast
  have t4: "lc (startTime a) (startTime b) \<le> 0 \<or> lc (startTime b) (startTime a) \<le> 0"
    using t ka kb by blast
  define l3 where "l3 a b \<longleftrightarrow> court a \<noteq> court b \<and> lc (court a) (court b) \<le> 0 \<or>
             court a = court b \<and> lc (startTime a) (startTime b) \<le> 0" for a b :: ExportRow
  define l2 where "l2 a b \<longleftrightarrow> facility a \<noteq> facility b \<and> lc (facility a) (facility b) \<le> 0 \<or>
             facility a = facility b \<and> l3 a b" for a b :: ExportRow
  have c: "canonical_le lc a b \<longleftrightarrow> date a \<noteq> date b \<and> lc (date a) (date b) \<le> 0 \<or>
             date a = date b \<and> l2 a b" for a b
    by (simp add: canonical_le_def l2_def l3_def)
  have s3: "l3 a b \<or> l3 b a"
    unfolding l3_def
    by (rule lex_total [where R = "\<lambda>s t. lc s t \<le> 0" and x = "court a" and y = "court b"
          and P = "lc (startTime a) (startTime b) \<le> 0" and Q = "lc (startTime b) (startTime a) \<le> 0",
          OF t3 t4])
  have s2: "l2 a b \<or> l2 b a"
    unfolding l2_def
    by (rule lex_total [where R = "\<lambda>s t. lc s t \<le> 0" and x = "facility a" and y = "facility b"
          and P = "l3 a b" and Q = "l3 b a", OF t2 s3])
  show ?thesis
    unfolding c
    by (rule lex_total [where R = "\<lambda>s t. lc s t \<le> 0" and x = "date a" and y = "date b"
          and P = "l2 a b" and Q = "l2 b a", OF t1 s2])
qed

lemma canonical_le_trans:
  assumes lin: "linear_on (key_strings rs) lc"
      and a: "a \<in> set rs" and b: "b \<in> set rs" and c: "c \<in> set rs"
      and ab: "canonical_le lc a b" and bc: "canonical_le lc b c"
  shows "canonical_le lc a c"
proof -
  note ka = key_strings_member [OF a] and kb = key_strings_member [OF b]
    and kc = key_strings_member [OF c]
  have anti: "\<And>s t. s \<in> set (key_strings rs) \<Longrightarrow> t \<in> set (key_strings rs) \<Longrightarrow>
             lc s t \<le> 0 \<Longrightarrow> lc t s \<le> 0 \<Longrightarrow> s = t"
    using lin unfolding linear_on_def by blast
  have tr: "\<And>s t u. s \<in> set (key_strings rs) \<Longrightarrow> t \<in> set (key_strings rs) \<Longrightarrow>
             u \<in> set (key_strings rs) \<Longrightarrow> lc s t \<le> 0 \<Longrightarrow> lc t u \<le> 0 \<Longrightarrow> lc s u \<le> 0"
    using lin unfolding linear_on_def by blast
  have a1: "lc (date a) (date b) \<le> 0 \<Longrightarrow> lc (date b) (date a) \<le> 0 \<Longrightarrow> date a = date b"
    using anti ka kb by blast
  have a2: "lc (facility a) (facility b) \<le> 0 \<Longrightarrow> lc (facility b) (facility a) \<le> 0 \<Longrightarrow>
            facility a = facility b"
    using anti ka kb by blast
  have a3: "lc (court a) (court b) \<le> 0 \<Longrightarrow> lc (court b) (court a) \<le> 0 \<Longrightarrow> court a = court b"
    using anti ka kb by blast
  have r1: "lc (date a) (date b) \<le> 0 \<Longrightarrow> lc (date b) (date c) \<le> 0 \<Longrightarrow> lc (date a) (date c) \<le> 0"
    using tr ka kb kc by blast
  have r2: "lc (facility a) (facility b) \<le> 0 \<Longrightarrow> lc (facility b) (facility c) \<le> 0 \<Longrightarrow>
            lc (facility a) (facility c) \<le> 0"
    using tr ka kb kc by blast
  have r3: "lc (court a) (court b) \<le> 0 \<Longrightarrow> lc (court b) (court c) \<le> 0 \<Longrightarrow> lc (court a) (court c) \<le> 0"
    using tr ka kb kc by blast
  have r4: "lc (startTime a) (startTime b) \<le> 0 \<Longrightarrow> lc (startTime b) (startTime c) \<le> 0 \<Longrightarrow>
            lc (startTime a) (startTime c) \<le> 0"
    using tr ka kb kc by blast
  define l3 where "l3 a b \<longleftrightarrow> court a \<noteq> court b \<and> lc (court a) (court b) \<le> 0 \<or>
             court a = court b \<and> lc (startTime a) (startTime b) \<le> 0" for a b :: ExportRow
  define l2 where "l2 a b \<longleftrightarrow> facility a \<noteq> facility b \<and> lc (facility a) (facility b) \<le> 0 \<or>
             facility a = facility b \<and> l3 a b" for a b :: ExportRow
  have cl: "canonical_le lc a b \<longleftrightarrow> date a \<noteq> date b \<and> lc (date a) (date b) \<le> 0 \<or>
             date a = date b \<and> l2 a b" for a b
    by (simp add: canonical_le_def l2_def l3_def)
  have s3: "l3 a b \<Longrightarrow> l3 b c \<Longrightarrow> l3 a c"
    unfolding l3_def
    by (rule lex_trans [where R = "\<lambda>s t. lc s t \<le> 0" and x = "court a" and y = "court b"
          and z = "court c" and P = "lc (startTime a) (startTime b) \<le> 0"
          and Q = "lc (startTime b) (startTime c) \<le> 0"
          and S = "lc (startTime a) (startTime c) \<le> 0", OF a3 r3 r4])
  have s2: "l2 a b \<Longrightarrow> l2 b c \<Longrightarrow> l2 a c"
    unfolding l2_def
    by (rule lex_trans [where R = "\<lambda>s t. lc s t \<le> 0" and x = "facility a" and y = "facility b"
          and z = "facility c" and P = "l3 a b" and Q = "l3 b c" and S = "l3 a c", OF a2 r2 s3])
  have s1: "date a \<noteq> date b \<and> lc (date a) (date b) \<le> 0 \<or> date a = date b \<and> l2 a b \<Longrightarrow>
            date b \<noteq> date c \<and> lc (date b) (date c) \<le> 0 \<or> date b = date c \<and> l2 b c \<Longrightarrow>
            date a \<noteq> date c \<and> lc (date a) (date c) \<le> 0 \<or> date a = date c \<and> l2 a c"
    by (rule lex_trans [where R = "\<lambda>s t. lc s t \<le> 0" and x = "date a" and y = "date b"
          and z = "date c" and P = "l2 a b" and Q = "l2 b c" and S = "l2 a c", OF a1 r1 s2])
  show ?thesis
    using ab bc s1 unfolding cl by blast
qed

lemma canonical_le_same_key:
  assumes lin: "linear_on (key_strings rs) lc" and a: "a \<in> set rs"
      and k: "row_sort_key b = row_sort_key a"
  shows "canonical_le lc a b"
proof -
  have "lc (startTime a) (startTime a) \<le> 0"
    using lin key_strings_member [OF a] unfolding linear_on_def by blast
  with k show ?thesis by (simp add: canonical_le_def row_sort_key_def)
qed

lemma sort_rows:
  assumes lin: "linear_on (key_strings rs) lc"
  shows "sorted_wrt (canonical_le lc) (array_sort (compare_rows lc) rs)
       \<and> mset (array_sort (compare_rows lc) rs) = mset rs
       \<and> (\<forall>k. filter (\<lambda>r. row_sort_key r = k) (array_sort (compare_rows lc) rs)
              = filter (\<lambda>r. row_sort_key r = k) rs)"
proof -
  have "sorted_wrt (\<lambda>a b. compare_rows lc a b \<le> 0) (array_sort (compare_rows lc) rs)"
  proof (rule sorted_array_sort [where S = "set rs"])
    fix a b assume a: "a \<in> set rs" and b: "b \<in> set rs"
    show "compare_rows lc a b \<le> 0 \<or> compare_rows lc b a \<le> 0"
      unfolding compare_rows_le by (rule canonical_le_total [OF lin a b])
  next
    fix a b c assume a: "a \<in> set rs" and b: "b \<in> set rs" and c: "c \<in> set rs"
      and ab: "compare_rows lc a b \<le> 0" and bc: "compare_rows lc b c \<le> 0"
    show "compare_rows lc a c \<le> 0"
      unfolding compare_rows_le
      by (rule canonical_le_trans [OF lin a b c ab [unfolded compare_rows_le] bc [unfolded compare_rows_le]])
  next
    show "set rs \<subseteq> set rs" by (rule subset_refl)
  qed
  then have s: "sorted_wrt (canonical_le lc) (array_sort (compare_rows lc) rs)"
    unfolding compare_rows_le .
  have st: "filter (\<lambda>r. row_sort_key r = k) (array_sort (compare_rows lc) rs)
              = filter (\<lambda>r. row_sort_key r = k) rs" for k
  proof (rule filter_array_sort)
    fix x y assume x: "x \<in> set rs" and "y \<in> set rs" and k: "row_sort_key y = row_sort_key x"
    show "compare_rows lc x y \<le> 0"
      unfolding compare_rows_le by (rule canonical_le_same_key [OF lin x k])
  qed
  have m: "mset (array_sort (compare_rows lc) rs) = mset rs" by (rule mset_array_sort)
  from s st m show ?thesis by blast
qed

lemma key_strings_filter: "set (key_strings (filter P rs)) \<subseteq> set (key_strings rs)"
  by (induction rs) (auto simp: key_strings_def)

lemma linear_on_subset: "linear_on ks lc \<Longrightarrow> set ks' \<subseteq> set ks \<Longrightarrow> linear_on ks' lc"
  unfolding linear_on_def by (meson subsetD)

text \<open>
  Claim C8. Let the collation be a linear order on the strings that occur as keys. Then in
  both views the sorted rows, from which the lines of the export are written one by one,
  are ordered by date, then facility display name, then court label, then start time, each
  compared as a string by the collation; they are the rows that went in; and the rows with
  any given four keys stand in the order in which they went in.
\<close>

theorem export_sorted_stable:
  assumes "linear_on (key_strings (allData results)) lc"
  shows "sorted_wrt (canonical_le lc) (sorted_all lc results)
       \<and> mset (sorted_all lc results) = mset (allData results)
       \<and> (\<forall>k. filter (\<lambda>r. row_sort_key r = k) (sorted_all lc results)
              = filter (\<lambda>r. row_sort_key r = k) (allData results))
       \<and> sorted_wrt (canonical_le lc) (sorted_available lc results)
       \<and> mset (sorted_available lc results) = mset (availableData results)
       \<and> (\<forall>k. filter (\<lambda>r. row_sort_key r = k) (sorted_available lc results)
              = filter (\<lambda>r. row_sort_key r = k) (availableData results))
       \<and> generateCSV lc results =
           join [CHR 0x0A]
             (join '','' [header_date, ko_court, header_start, header_end, header_status]
              # map csv_row_full (sorted_all lc results))
       \<and> generateAvailableOnlyCSV lc results =
           join [CHR 0x0A]
             (join '','' [header_date, ko_court, header_start, header_end]
              # map csv_row_available (sorted_available lc results))"
proof -
  have "set (key_strings (availableData results)) \<subseteq> set (key_strings (allData results))"
    unfolding availableData_def by (rule key_strings_filter)
  with assms have av: "linear_on (key_strings (availableData results)) lc"
    by (rule linear_on_subset)
  note all = sort_rows [OF assms, folded sorted_all_def]
  note avail = sort_rows [OF av, folded sorted_available_def]
  note csv = generateCSV_def [of lc results] generateAvailableOnlyCSV_def [of lc results]
  from all avail csv show ?thesis by blast
qed

theorem export_sorted_stable_witness:
  "map endTime (sorted_all code_compare sample_results) = [''09:00'', ''10:00'', ''11:00'', ''09:00'']
   \<and> map endTime (sorted_available code_compare sample_results) = [''09:00'', ''11:00'', ''09:00'']
   \<and> sorted_wrt (canonical_le code_compare) (sorted_all code_compare sample_results)
   \<and> sorted_wrt (canonical_le code_compare) (sorted_available code_compare sample_results)
   \<and> map endTime (filter (\<lambda>r. row_sort_key r = (''2025-10-01'', facility_bul, ''2'', ''09:00''))
          (sorted_all code_compare sample_results)) = [''10:00'', ''11:00'']"
proof -
  have lin: "linear_on (key_strings (allData sample_results)) code_compare"
    by (rule linear_on_code_compare)
  have e1: "map endTime (sorted_all code_compare sample_results) = [''09:00'', ''10:00'', ''11:00'', ''09:00'']"
    by code_simp
  have e2: "map endTime (sorted_available code_compare sample_results) = [''09:00'', ''11:00'', ''09:00'']"
    by code_simp
  have e3: "map endTime (filter (\<lambda>r. row_sort_key r = (''2025-10-01'', facility_bul, ''2'', ''09:00''))
          (allData sample_results)) = [''10:00'', ''11:00'']"
    by code_simp
  from export_sorted_stable [OF lin] e1 e2 e3 show ?thesis by simp
qed

section \<open>Properties of the embedded-markup parser\<close>

subsection \<open>The time pattern\<close>

lemma match_at_digits:
  assumes "match_at s = Some (h, m)"
  shows "all_digits h \<and> all_digits m"
proof -
  have two: "list_all is_digit (take 2 (drop k s))" if "k + 1 < length s" "is_digit (s ! k)" "is_digit (s ! (k + 1))" for k
  proof -
    have "take 2 (drop k s) = [s ! k, s ! (k + 1)]"
      using that(1) by (simp add: take_Suc_conv_app_nth numeral_2_eq_2 Cons_nth_drop_Suc [symmetric] take_Suc)
    with that show ?thesis by simp
  qed
  show ?thesis
  proof (cases "5 \<le> length s \<and> is_digit (s ! 0) \<and> is_digit (s ! 1) \<and> s ! 2 = CHR '':''
          \<and> is_digit (s ! 3) \<and> is_digit (s ! 4)")
    case True
    then have hm: "h = take 2 s" "m = take 2 (drop 3 s)" using assms by (simp_all add: match_at_def)
    have "list_all is_digit (take 2 (drop 0 s))" using True by (intro two) simp_all
    moreover have "list_all is_digit (take 2 (drop 3 s))" using True by (intro two) simp_all
    moreover have "h \<noteq> []" "m \<noteq> []" using True hm by auto
    ultimately show ?thesis using hm by (simp add: all_digits_def)
  next
    case False
    then have c: "4 \<le> length s \<and> is_digit (s ! 0) \<and> s ! 1 = CHR '':''
          \<and> is_digit (s ! 2) \<and> is_digit (s ! 3)" and hm: "h = take 1 s" "m = take 2 (drop 2 s)"
      using assms by (simp_all add: match_at_def split: if_splits)
    have "list_all is_digit (take 2 (drop 2 s))" using c by (intro two) simp_all
    moreover have "take 1 s = [s ! 0]" using c by (cases s) simp_all
    moreover have "m \<noteq> []" using c hm by auto
    ultimately show ?thesis using hm c by (simp add: all_digits_def)
  qed
qed

lemma time_match_digits: "time_match s = Some (h, m) \<Longrightarrow> all_digits h \<and> all_digits m"
  by (induction s) (auto split: option.splits dest: match_at_digits)

lemma padded_text_no_colon:
  assumes "0 \<le> n"
  shows "CHR '':'' \<notin> set (padStart 2 (CHR ''0'') (string_of_int n))"
proof -
  have "list_all is_digit (string_of_nat (nat n))" using string_of_nat_digits by blast
  then have "CHR '':'' \<notin> set (string_of_nat (nat n))"
    by (auto simp: list_all_iff is_digit_def)
  then show ?thesis using assms by (auto simp: padStart_def string_of_int_def)
qed

lemma append_sep_eq:
  assumes "x \<notin> set xs" and "x \<notin> set xs'"
  shows "(xs @ x # ys = xs' @ x # ys') = (xs = xs' \<and> ys = ys')"
proof
  assume eq: "xs @ x # ys = xs' @ x # ys'"
  have tw: "takeWhile (\<lambda>c. c \<noteq> x) (zs @ x # ws) = zs" if "x \<notin> set zs" for zs ws
    using that by (induction zs) auto
  from eq have "takeWhile (\<lambda>c. c \<noteq> x) (xs @ x # ys) = takeWhile (\<lambda>c. c \<noteq> x) (xs' @ x # ys')"
    by simp
  then have "xs = xs'" using tw assms by simp
  with eq show "xs = xs' \<and> ys = ys'" by simp
next
  assume "xs = xs' \<and> ys = ys'"
  then show "xs @ x # ys = xs' @ x # ys'" by simp
qed

lemma slot_time_six:
  assumes "0 \<le> n"
  shows "(padStart 2 (CHR ''0'') (string_of_int n) @ '':'' @ m = ''06:00'') = (n = 6 \<and> m = ''00'')"
proof -
  have six: "padStart 2 (CHR ''0'') (string_of_int 6) = ''06''" by code_simp
  have "(padStart 2 (CHR ''0'') (string_of_int n) @ CHR '':'' # m = ''06'' @ CHR '':'' # ''00'')
        = (padStart 2 (CHR ''0'') (string_of_int n) = ''06'' \<and> m = ''00'')"
  proof (rule append_sep_eq)
    show "CHR '':'' \<notin> set (padStart 2 (CHR ''0'') (string_of_int n))"
      by (rule padded_text_no_colon [OF assms])
    show "CHR '':'' \<notin> set ''06''" by simp
  qed
  moreover have "(padStart 2 (CHR ''0'') (string_of_int n) = ''06'') = (n = 6)"
    using padded_text_inj [of n 6] six by auto
  ultimately show ?thesis by simp
qed

lemma checkbox_slot_cases:
  assumes tm: "time_match (control_value cb) = Some (h, m)"
  shows "if parseInt h = Some 6 \<and> m = ''00'' then checkbox_slot cb = None
         else \<exists>n. 0 \<le> n \<and> parseInt h = Some n \<and>
                checkbox_slot cb =
                  Some \<lparr>slot_time = padStart 2 (CHR ''0'') (string_of_int (if 7 \<le> n then n - 1 else n))
                                     @ '':'' @ m,
                        slot_available = (\<not> attr_disabled cb),
                        slot_price = [],
                        slot_status = (if \<not> attr_disabled cb then ''available'' else ''disabled'')\<rparr>"
proof -
  from time_match_digits [OF tm] have "all_digits h" by simp
  from parseInt_digits [OF this] obtain n where n: "parseInt h = Some n" "0 \<le> n" by blast
  show ?thesis
    using tm n by (auto simp: checkbox_slot_def corrected_hour_def number_toString_def)
qed

lemma checkbox_slot_six:
  "(\<exists>s. checkbox_slot cb = Some s \<and> slot_time s = ''06:00'')
     = (\<exists>h. time_match (control_value cb) = Some (h, ''00'') \<and> parseInt h = Some 7)"
proof (cases "time_match (control_value cb)")
  case None
  then show ?thesis by (simp add: checkbox_slot_def)
next
  case (Some hm)
  obtain h m where hm: "hm = (h, m)" by (cases hm)
  with Some have tm: "time_match (control_value cb) = Some (h, m)" by simp
  from time_match_digits [OF tm] have "all_digits h" by simp
  from parseInt_digits [OF this] obtain n where n: "parseInt h = Some n" "0 \<le> n" by blast
  show ?thesis
  proof (cases "n = 6 \<and> m = ''00''")
    case True
    then show ?thesis using tm n by (simp add: checkbox_slot_def)
  next
    case False
    let ?n' = "if 7 \<le> n then n - 1 else n"
    have n': "0 \<le> ?n'" using n by simp
    have "(\<exists>s. checkbox_slot cb = Some s \<and> slot_time s = ''06:00'')
        = (padStart 2 (CHR ''0'') (string_of_int ?n') @ '':'' @ m = ''06:00'')"
      using checkbox_slot_cases [OF tm] n False by auto
    also have "\<dots> = (?n' = 6 \<and> m = ''00'')" by (rule slot_time_six [OF n'])
    also have "\<dots> = (n = 7 \<and> m = ''00'')" using False by auto
    also have "\<dots> = (\<exists>h. time_match (control_value cb) = Some (h, ''00'') \<and> parseInt h = Some 7)"
      using tm n by auto
    finally show ?thesis .
  qed
qed

lemma set_map_filter_iff: "(y \<in> set (List.map_filter f xs)) = (\<exists>x\<in>set xs. f x = Some y)"
  by (induction xs) (auto simp: map_filter_simps split: option.splits)

text \<open>
  Claim C5, amended. The output of the strategy is made from the checkbox inputs of the
  fragment, in order: an input whose value holds no time gives no slot; an input that
  advertises hour 6 and minute 00 gives no slot; every other input gives one slot, whose
  hour is the advertised hour less one when that is 7 or more and the advertised hour
  otherwise, and which is available exactly when the input is not disabled. A slot with the
  time 06:00 is in the output exactly when some input advertises 7:00.
\<close>

theorem embedded_markup_hour_correction:
  assumes "parseTimeSlots lib htmlContent = Inr slots"
  shows "\<exists>boxes. select_checkboxes lib htmlContent = Inr boxes
       \<and> slots = List.map_filter checkbox_slot boxes
       \<and> (\<forall>cb\<in>set boxes. time_match (control_value cb) = None \<longrightarrow> checkbox_slot cb = None)
       \<and> (\<forall>cb\<in>set boxes. \<forall>h m. time_match (control_value cb) = Some (h, m) \<longrightarrow>
             (if parseInt h = Some 6 \<and> m = ''00'' then checkbox_slot cb = None
              else \<exists>n. 0 \<le> n \<and> parseInt h = Some n \<and>
                     checkbox_slot cb =
                       Some \<lparr>slot_time = padStart 2 (CHR ''0'')
                                            (string_of_int (if 7 \<le> n then n - 1 else n))
                                          @ '':'' @ m,
                             slot_available = (\<not> attr_disabled cb),
                             slot_price = [],
                             slot_status = (if \<not> attr_disabled cb then ''available''
                                            else ''disabled'')\<rparr>))
       \<and> ((\<exists>s\<in>set slots. slot_time s = ''06:00'')
            = (\<exists>cb\<in>set boxes. \<exists>h. time_match (control_value cb) = Some (h, ''00'')
                                   \<and> parseInt h = Some 7))"
proof -
  from assms obtain boxes where b: "select_checkboxes lib htmlContent = Inr boxes"
    and s: "slots = List.map_filter checkbox_slot boxes"
    by (auto simp: parseTimeSlots_def split: sum.splits)
  have none: "\<forall>cb\<in>set boxes. time_match (control_value cb) = None \<longrightarrow> checkbox_slot cb = None"
    by (simp add: checkbox_slot_def)
  have some: "\<forall>cb\<in>set boxes. \<forall>h m. time_match (control_value cb) = Some (h, m) \<longrightarrow>
             (if parseInt h = Some 6 \<and> m = ''00'' then checkbox_slot cb = None
              else \<exists>n. 0 \<le> n \<and> parseInt h = Some n \<and>
                     checkbox_slot cb =
                       Some \<lparr>slot_time = padStart 2 (CHR ''0'')
                                            (string_of_int (if 7 \<le> n then n - 1 else n))
                                          @ '':'' @ m,
                             slot_available = (\<not> attr_disabled cb),
                             slot_price = [],
                             slot_status = (if \<not> attr_disabled cb then ''available''
                                            else ''disabled'')\<rparr>)"
    using checkbox_slot_cases by blast
  have "(\<exists>s\<in>set slots. slot_time s = ''06:00'')
      = (\<exists>cb\<in>set boxes. \<exists>s. checkbox_slot cb = Some s \<and> slot_time s = ''06:00'')"
    unfolding s using set_map_filter_iff [of _ checkbox_slot boxes] by blast
  also have "\<dots> = (\<exists>cb\<in>set boxes. \<exists>h. time_match (control_value cb) = Some (h, ''00'')
                                   \<and> parseInt h = Some 7)"
    by (simp only: checkbox_slot_six)
  finally have six: "(\<exists>s\<in>set slots. slot_time s = ''06:00'')
            = (\<exists>cb\<in>set boxes. \<exists>h. time_match (control_value cb) = Some (h, ''00'')
                                   \<and> parseInt h = Some 7)" .
  from b s none some six show ?thesis by blast
qed

text \<open>
  Claim C5, as stated, fails: an input advertising 07:00 is shifted by the hour correction
  and yields a slot whose time is 06:00.
\<close>

theorem placeholder_slot_from_seven:
  "parseTimeSlots sample_platform (JStr ''<input type=checkbox value=07:00>'')
     = Inr [\<lparr>slot_time = ''06:00'', slot_available = True, slot_price = [],
              slot_status = ''available''\<rparr>]"
  by code_simp

theorem embedded_markup_hour_correction_witness:
  "parseTimeSlots sample_platform
      (JStr ''<input type=checkbox value=09:00><input type=checkbox value=14:00 disabled><input type=checkbox value=06:00>'')
     = Inr [\<lparr>slot_time = ''08:00'', slot_available = True, slot_price = [],
              slot_status = ''available''\<rparr>,
            \<lparr>slot_time = ''13:00'', slot_available = False, slot_price = [],
              slot_status = ''disabled''\<rparr>]
   \<and> \<not> (\<exists>cb\<in>set [\<lparr>attr_value = Some ''09:00'', attr_disabled = False\<rparr>,
                    \<lparr>attr_value = Some ''14:00'', attr_disabled = True\<rparr>,
                    \<lparr>attr_value = Some ''06:00'', attr_disabled = False\<rparr>].
          \<exists>h. time_match (control_value cb) = Some (h, ''00'') \<and> parseInt h = Some 7)"
proof -
  let ?html = "JStr ''<input type=checkbox value=09:00><input type=checkbox value=14:00 disabled><input type=checkbox value=06:00>''"
  let ?slots = "[\<lparr>slot_time = ''08:00'', slot_available = True, slot_price = [],
              slot_status = ''available''\<rparr>,
            \<lparr>slot_time = ''13:00'', slot_available = False, slot_price = [],
              slot_status = ''disabled''\<rparr>]"
  have run: "parseTimeSlots sample_platform ?html = Inr ?slots"
    by code_simp
  have sel: "select_checkboxes sample_platform ?html =
      Inr [\<lparr>attr_value = Some ''09:00'', attr_disabled = False\<rparr>,
           \<lparr>attr_value = Some ''14:00'', attr_disabled = True\<rparr>,
           \<lparr>attr_value = Some ''06:00'', attr_disabled = False\<rparr>]"
    by (simp add: sample_platform_def)
  have no6: "\<not> (\<exists>s\<in>set ?slots. slot_time s = ''06:00'')" by simp
  from embedded_markup_hour_correction [OF run] sel no6 run show ?thesis
    by (elim exE conjE) simp
qed

section \<open>Properties of the crawl runs\<close>

subsection \<open>One call of the embedded-markup crawler\<close>

lemma checkAvailability_state:
  "snd (checkAvailability lib up d s) = s\<lparr>events := events s @ call_events up d\<rparr>"
  by (simp add: checkAvailability_def call_events_def Let_def split: sum.splits)

lemma checkAvailability_result:
  "fst (checkAvailability lib up d s) = fst (checkAvailability lib up d s')"
  by (simp add: checkAvailability_def Let_def split: sum.splits)

lemma checkAvailability_date: "ar_date (fst (checkAvailability lib up d s)) = d"
  by (auto simp: checkAvailability_def Let_def error_result_def parseAvailabilityData_def
      split: sum.splits json.splits if_splits)

subsection \<open>The loop over the dates\<close>

lemma paced_Cons:
  "paced p (g # gs) = (if gs = [] then g else g @ [p] @ paced p gs)"
  by (cases gs) simp_all

lemma crawl_dates_closed:
  "i \<le> length dates \<Longrightarrow>
   crawl_dates lib up dates delay i (rs, s) =
     (rs @ map (\<lambda>d. fst (checkAvailability lib up d s0)) (drop i dates),
      s\<lparr>events := events s @ paced (Sleep (delay * 1000)) (map (call_events up) (drop i dates))\<rparr>)"
proof (induction "length dates - i" arbitrary: i rs s)
  case 0
  then have "i = length dates" by simp
  then show ?case by (simp add: crawl_dates.simps [of lib up dates delay "length dates"])
next
  case (Suc n)
  then have i: "i < length dates" and n: "n = length dates - Suc i" by simp_all
  from i have dr: "drop i dates = dates ! i # drop (Suc i) dates"
    by (simp add: Cons_nth_drop_Suc)
  obtain result s1 where call: "checkAvailability lib up (dates ! i) s = (result, s1)"
    by (cases "checkAvailability lib up (dates ! i) s")
  have r: "result = fst (checkAvailability lib up (dates ! i) s0)"
    using call checkAvailability_result [of lib up "dates ! i" s s0] by simp
  have s1: "s1 = s\<lparr>events := events s @ call_events up (dates ! i)\<rparr>"
    using call checkAvailability_state [of lib up "dates ! i" s] by simp
  let ?s2 = "if int i < int (length dates) - 1
             then s1\<lparr>events := events s1 @ [Sleep (delay * 1000)]\<rparr> else s1"
  have step: "crawl_dates lib up dates delay i (rs, s) =
              crawl_dates lib up dates delay (Suc i) (rs @ [result], ?s2)"
    using i call by (simp add: crawl_dates.simps [of lib up dates delay i])
  have ih: "crawl_dates lib up dates delay (Suc i) (rs @ [result], ?s2) =
      ((rs @ [result]) @ map (\<lambda>d. fst (checkAvailability lib up d s0)) (drop (Suc i) dates),
       ?s2\<lparr>events := events ?s2 @ paced (Sleep (delay * 1000))
                                      (map (call_events up) (drop (Suc i) dates))\<rparr>)"
    using Suc.hyps(1) [OF n] i by simp
  have last: "(int i < int (length dates) - 1) = (drop (Suc i) dates \<noteq> [])"
    using i by auto
  show ?case
    unfolding step ih dr
    by (simp add: r s1 last paced_Cons)
qed

lemma tennis_crawlMonth_closed:
  "tennis_crawlMonth lib up lastDay year month delay s =
     (map (\<lambda>d. fst (checkAvailability lib up d s)) (getMonthDates lastDay year month),
      s\<lparr>events := events s @ paced (Sleep (delay * 1000))
                                 (map (call_events up) (getMonthDates lastDay year month))\<rparr>)"
  unfolding tennis_crawlMonth_def
  using crawl_dates_closed [of 0 "getMonthDates lastDay year month" lib up delay "[]" s s]
  by simp

subsection \<open>The month loop of the tabular crawler\<close>

lemma crawlAvailableTimes_log:
  "crawlAvailableTimes ar up d c lg =
     (fst (crawlAvailableTimes ar up d c []),
      lg @ (case reserve_time_pick up d c of
              Inl e \<Rightarrow> [Post (nowon_baseUrl @ ''/sports/reserve_time_pick'') [d, string_of_int c]]
            | Inr r \<Rightarrow> [Post (nowon_baseUrl @ ''/sports/reserve_time_pick'') [d, string_of_int c],
                       Post (nowon_baseUrl @ ''/API'') [''A'', d, string_of_int c]]))"
  by (simp add: crawlAvailableTimes_def getTimeList_def checkReserve_def split: sum.splits)

lemma crawlAvailableTimes_fails:
  "(\<exists>e. fst (crawlAvailableTimes ar up d c []) = Inl e) = (\<exists>e. reserve_time_pick up d c = Inl e)"
  by (auto simp: crawlAvailableTimes_def getTimeList_def checkReserve_def split: sum.splits)

lemma crawl_pair:
  "crawl_facilities ar up delay d ((c, name, display) # fs) (R, lg) =
     crawl_facilities ar up delay d fs
       (push_rows name (pair_rows ar up d c) R, lg @ pair_events up delay d c)"
proof (cases "reserve_time_pick up d c")
  case (Inl e)
  then have "crawlAvailableTimes ar up d c lg =
      (Inl e, lg @ [Post (nowon_baseUrl @ ''/sports/reserve_time_pick'') [d, string_of_int c]])"
    by (simp add: crawlAvailableTimes_def getTimeList_def)
  moreover have "pair_rows ar up d c = []"
    using Inl by (simp add: pair_rows_def crawlAvailableTimes_def getTimeList_def)
  moreover have "push_rows name [] R = R" by (cases name) simp_all
  ultimately show ?thesis using Inl by (simp add: pair_events_def)
next
  case (Inr result)
  then obtain rows where rows: "fst (crawlAvailableTimes ar up d c []) = Inr rows"
    by (simp add: crawlAvailableTimes_def getTimeList_def checkReserve_def)
  then have "crawlAvailableTimes ar up d c lg =
      (Inr rows, lg @ [Post (nowon_baseUrl @ ''/sports/reserve_time_pick'') [d, string_of_int c],
                       Post (nowon_baseUrl @ ''/API'') [''A'', d, string_of_int c]])"
    using crawlAvailableTimes_log [of ar up d c lg] Inr by simp
  moreover have "pair_rows ar up d c = rows" using rows by (simp add: pair_rows_def)
  ultimately show ?thesis using Inr by (simp add: pair_events_def)
qed

lemma crawl_day:
  "crawl_facilities ar up delay d facilities (R, lg) =
     (\<lparr>bul = bul R @ pair_rows ar up d 15, ma = ma R @ pair_rows ar up d 16,
       cho = cho R @ pair_rows ar up d 17\<rparr>,
      lg @ day_events up delay d)"
proof -
  have "crawl_facilities ar up delay d facilities (R, lg) =
      (push_rows Cho (pair_rows ar up d 17) (push_rows Ma (pair_rows ar up d 16)
         (push_rows Bul (pair_rows ar up d 15) R)),
       ((lg @ pair_events up delay d 15) @ pair_events up delay d 16) @ pair_events up delay d 17)"
    by (simp only: facilities_def crawl_pair crawl_facilities.simps(1))
  then show ?thesis by (simp add: day_events_def)
qed

lemma crawl_days_closed:
  "crawl_days ar up delay ds (R, lg) =
     (\<lparr>bul = bul R @ concat (map (\<lambda>d. pair_rows ar up d 15) ds),
       ma = ma R @ concat (map (\<lambda>d. pair_rows ar up d 16) ds),
       cho = cho R @ concat (map (\<lambda>d. pair_rows ar up d 17) ds)\<rparr>,
      lg @ concat (map (day_events up delay) ds))"
  by (induction ds arbitrary: R lg) (simp_all add: crawl_day)

lemma nowon_crawlMonth_closed:
  "nowon_crawlMonth ar up pickDates delay =
     (\<lparr>bul = concat (map (\<lambda>d. pair_rows ar up d 15) pickDates),
       ma = concat (map (\<lambda>d. pair_rows ar up d 16) pickDates),
       cho = concat (map (\<lambda>d. pair_rows ar up d 17) pickDates)\<rparr>,
      concat (map (day_events up delay) pickDates))"
  by (simp add: nowon_crawlMonth_def crawl_days_closed)

subsection \<open>Tolerance of the parsers\<close>

lemma reserve_failure_tolerated:
  assumes "reserve_time_pick up d c = Inr r" and "api_reserved up d c = Inl e"
  shows "fst (crawlAvailableTimes ar up d c lg) = Inr (build_rows ar d c r \<lparr>list = None\<rparr>)
       \<and> reservedSet ar \<lparr>list = None\<rparr> = {}"
  using assms
  by (simp add: crawlAvailableTimes_def getTimeList_def checkReserve_def reservedSet_def
        reservedList_def)

lemma court_without_markup:
  assumes "courtInfo \<noteq> JNull" and "\<not> truthy (read_prop courtInfo ''htmlx'')"
  shows "\<exists>c. court_data lib i courtInfo = Inr c \<and> time_slots c = [] \<and> total_slots c = 0"
  using assms by (simp add: court_data_def)

lemma unparsable_court_list:
  assumes "read_prop data ''play_name'' = Some (JStr t)" and "t \<noteq> []"
      and "JSON_parse lib t = Inl e"
  shows "\<exists>r. parseAvailabilityData lib dateStr data = Inr r \<and> ar_status r = ''success''
             \<and> ar_courts r = []"
proof -
  have "data \<noteq> JNull" using assms(1) by (auto simp: read_prop_def)
  moreover have "play_data lib data = JArr []" using assms by (simp add: play_data_def)
  ultimately show ?thesis by (simp add: parseAvailabilityData_def)
qed

lemma null_block_aborts: "JNull \<in> set blocks \<Longrightarrow> \<exists>e. parse_courts lib i blocks = Inl e"
proof (induction blocks arbitrary: i)
  case Nil
  then show ?case by simp
next
  case (Cons b blocks)
  show ?case
  proof (cases "b = JNull")
    case True
    then show ?thesis by (simp add: court_data_def)
  next
    case False
    with Cons.prems have "JNull \<in> set blocks" by simp
    from Cons.IH [OF this, of "Suc i"] show ?thesis by (auto split: sum.splits)
  qed
qed

text \<open>
  Claim C6 at a response whose court list holds \<open>null\<close> in front of a well-formed
  block: the read of a property of \<open>null\<close> throws out of the loop over the blocks, and the
  whole date comes back as an error result without courts; the second block is not parsed.
\<close>

theorem null_court_block_fails_whole_date:
  "fst (checkAvailability sample_platform sample_tennis_upstream ''20251002'' new_TennisCourtCrawler)
     = error_result ''20251002'' (TypeError ''Cannot read properties of null'')
   \<and> ar_courts (fst (checkAvailability sample_platform sample_tennis_upstream ''20251002''
                       new_TennisCourtCrawler)) = []"
  by (simp add: checkAvailability_def sample_tennis_upstream_def sample_platform_def Let_def
        parseAvailabilityData_def play_data_def read_prop_def court_data_def error_result_def)

text \<open>
  Claim C2 at an upstream that is down for six dates in a row: every date sends its
  request, and the breaker of the crawler is as it was made, closed and with no failure
  counted; fed the five failures, it would be open.
\<close>

theorem tennis_breaker_never_fed:
  "snd (tennis_crawlMonth sample_platform down_upstream 6 2025 10 (1 / 2) new_TennisCourtCrawler)
     = \<lparr>circuitBreaker = new_CircuitBreaker 5 600, loggedIn = False,
        events = [Get indexUrl, Sleep 500, Get indexUrl, Sleep 500, Get indexUrl, Sleep 500,
                  Get indexUrl, Sleep 500, Get indexUrl, Sleep 500, Get indexUrl]\<rparr>
   \<and> state (fold recordFailure [1000, 2000, 3000, 4000, 5000] (new_CircuitBreaker 5 600)) = OPEN"
proof -
  have d: "getMonthDates 6 2025 10 =
      [''20251001'', ''20251002'', ''20251003'', ''20251004'', ''20251005'', ''20251006'']"
    by code_simp
  have "snd (tennis_crawlMonth sample_platform down_upstream 6 2025 10 (1 / 2) new_TennisCourtCrawler)
     = \<lparr>circuitBreaker = new_CircuitBreaker 5 600, loggedIn = False,
        events = [Get indexUrl, Sleep 500, Get indexUrl, Sleep 500, Get indexUrl, Sleep 500,
                  Get indexUrl, Sleep 500, Get indexUrl, Sleep 500, Get indexUrl]\<rparr>"
    by (simp add: tennis_crawlMonth_closed d call_events_def down_upstream_def
          new_TennisCourtCrawler_def)
  moreover have "state (fold recordFailure [1000, 2000, 3000, 4000, 5000] (new_CircuitBreaker 5 600)) = OPEN"
    by (simp add: new_CircuitBreaker_def recordFailure_def Let_def)
  ultimately show ?thesis by simp
qed

lemma tennis_breaker_untouched:
  "circuitBreaker (snd (tennis_crawlMonth lib up lastDay year month delay s)) = circuitBreaker s"
  by (simp add: tennis_crawlMonth_closed)

subsection \<open>Coverage of the requested dates\<close>

lemma checkAvailability_get_failed:
  "index_get up d = Inl e \<Longrightarrow> fst (checkAvailability lib up d s) = error_result d e"
  by (simp add: checkAvailability_def Let_def)

lemma checkAvailability_post_failed:
  "index_get up d = Inr u \<Longrightarrow> ajax_post up d = Inl e \<Longrightarrow>
   fst (checkAvailability lib up d s) = error_result d e"
  by (simp add: checkAvailability_def Let_def)

lemma pair_rows_failed: "reserve_time_pick up d c = Inl e \<Longrightarrow> pair_rows ar up d c = []"
  by (simp add: pair_rows_def crawlAvailableTimes_def getTimeList_def)

lemma pair_rows_returned:
  "reserve_time_pick up d c = Inr r \<Longrightarrow>
   pair_rows ar up d c = build_rows ar d c r (fst (checkReserve up d c []))"
  by (simp add: pair_rows_def crawlAvailableTimes_def getTimeList_def checkReserve_def)

text \<open>
  Claim C1, as stated, fails for the tabular crawler: the schedule request of facility 16
  times out, and the output of the run has no entry for that pair, neither rows nor an
  error marker.
\<close>

theorem failed_pair_of_tabular_run_leaves_no_entry:
  "reserve_time_pick sample_upstream ''2025-10-01'' 16 = Inl (AxiosError ''timeout of 15000ms exceeded'')
   \<and> ma (fst (nowon_crawlMonth exact_arithmetic sample_upstream [''2025-10-01''] (1 / 2))) = []"
  by (simp add: nowon_crawlMonth_closed pair_rows_failed sample_upstream_def)

text \<open>
  Claim C1, amended. Both month loops are total functions of the dates and the answers of
  the upstream, so every run ends. The embedded-markup crawler returns one result for each
  requested date, in the order of the dates and carrying the date, and the result of a date
  whose GET or POST threw is the error result of that date with the message of the error
  and no courts. The tabular crawler goes on to the next pair after a failure; its output
  holds, for each facility, the rows of the days whose schedule request returned, and
  nothing for a pair whose schedule request threw.
\<close>

theorem crawl_runs_cover_dates:
  "fst (tennis_crawlMonth lib up lastDay year month delay s)
     = map (\<lambda>d. fst (checkAvailability lib up d s)) (getMonthDates lastDay year month)
   \<and> map ar_date (fst (tennis_crawlMonth lib up lastDay year month delay s))
     = getMonthDates lastDay year month
   \<and> (\<forall>d e. index_get up d = Inl e \<longrightarrow> fst (checkAvailability lib up d s) = error_result d e)
   \<and> (\<forall>d u e. index_get up d = Inr u \<and> ajax_post up d = Inl e \<longrightarrow>
          fst (checkAvailability lib up d s) = error_result d e)
   \<and> fst (nowon_crawlMonth ar nup pickDates delay)
     = \<lparr>bul = concat (map (\<lambda>d. pair_rows ar nup d 15) pickDates),
        ma = concat (map (\<lambda>d. pair_rows ar nup d 16) pickDates),
        cho = concat (map (\<lambda>d. pair_rows ar nup d 17) pickDates)\<rparr>
   \<and> (\<forall>d c e. reserve_time_pick nup d c = Inl e \<longrightarrow> pair_rows ar nup d c = [])
   \<and> (\<forall>d c r. reserve_time_pick nup d c = Inr r \<longrightarrow>
          pair_rows ar nup d c = build_rows ar d c r (fst (checkReserve nup d c [])))"
proof -
  have t1: "fst (tennis_crawlMonth lib up lastDay year month delay s)
     = map (\<lambda>d. fst (checkAvailability lib up d s)) (getMonthDates lastDay year month)"
    by (simp add: tennis_crawlMonth_closed)
  have t2: "map ar_date (fst (tennis_crawlMonth lib up lastDay year month delay s))
     = getMonthDates lastDay year month"
    by (simp add: t1 comp_def checkAvailability_date)
  have n1: "fst (nowon_crawlMonth ar nup pickDates delay)
     = \<lparr>bul = concat (map (\<lambda>d. pair_rows ar nup d 15) pickDates),
        ma = concat (map (\<lambda>d. pair_rows ar nup d 16) pickDates),
        cho = concat (map (\<lambda>d. pair_rows ar nup d 17) pickDates)\<rparr>"
    by (simp add: nowon_crawlMonth_closed)
  have n2: "\<forall>d c e. reserve_time_pick nup d c = Inl e \<longrightarrow> pair_rows ar nup d c = []"
    by (simp add: pair_rows_failed)
  have n3: "\<forall>d c r. reserve_time_pick nup d c = Inr r \<longrightarrow>
          pair_rows ar nup d c = build_rows ar d c r (fst (checkReserve nup d c []))"
    by (simp add: pair_rows_returned)
  from t1 t2 n1 n2 n3 checkAvailability_get_failed checkAvailability_post_failed
  show ?thesis by blast
qed

theorem crawl_runs_cover_dates_witness:
  "map ar_date (fst (tennis_crawlMonth sample_platform sample_tennis_upstream 4 2025 10 (1 / 2)
                       new_TennisCourtCrawler))
     = [''20251001'', ''20251002'', ''20251003'', ''20251004'']
   \<and> fst (checkAvailability sample_platform sample_tennis_upstream ''20251004'' new_TennisCourtCrawler)
     = error_result ''20251004'' (AxiosError ''timeout of 10000ms exceeded'')
   \<and> ma (fst (nowon_crawlMonth exact_arithmetic sample_upstream [''2025-10-01'', ''2025-10-02''] (1 / 2))) = []
   \<and> length (cho (fst (nowon_crawlMonth exact_arithmetic sample_upstream [''2025-10-01'', ''2025-10-02''] (1 / 2)))) = 16"
proof -
  note t = crawl_runs_cover_dates [where lib = sample_platform and up = sample_tennis_upstream
      and lastDay = 4 and year = 2025 and month = 10 and delay = "1 / 2"
      and s = new_TennisCourtCrawler and nup = sample_upstream and ar = exact_arithmetic
      and pickDates = "[''2025-10-01'', ''2025-10-02'']"]
  have d: "getMonthDates 4 2025 10 = [''20251001'', ''20251002'', ''20251003'', ''20251004'']"
    by code_simp
  have g: "index_get sample_tennis_upstream ''20251004'' = Inl (AxiosError ''timeout of 10000ms exceeded'')"
    by (simp add: sample_tennis_upstream_def)
  have f: "reserve_time_pick sample_upstream ''2025-10-01'' 16 = Inl (AxiosError ''timeout of 15000ms exceeded'')"
          "reserve_time_pick sample_upstream ''2025-10-02'' 16 = Inl (AxiosError ''timeout of 15000ms exceeded'')"
    by (simp_all add: sample_upstream_def)
  have c: "length (pair_rows exact_arithmetic sample_upstream ''2025-10-01'' 17) = 8"
          "length (pair_rows exact_arithmetic sample_upstream ''2025-10-02'' 17) = 8"
    by code_simp+
  from t have a: "map ar_date (fst (tennis_crawlMonth sample_platform sample_tennis_upstream 4 2025 10
        (1 / 2) new_TennisCourtCrawler)) = getMonthDates 4 2025 10"
    by blast
  from t g have b: "fst (checkAvailability sample_platform sample_tennis_upstream ''20251004''
        new_TennisCourtCrawler) = error_result ''20251004'' (AxiosError ''timeout of 10000ms exceeded'')"
    by blast
  from t have n: "fst (nowon_crawlMonth exact_arithmetic sample_upstream [''2025-10-01'', ''2025-10-02''] (1 / 2))
     = \<lparr>bul = concat (map (\<lambda>d. pair_rows exact_arithmetic sample_upstream d 15) [''2025-10-01'', ''2025-10-02'']),
        ma = concat (map (\<lambda>d. pair_rows exact_arithmetic sample_upstream d 16) [''2025-10-01'', ''2025-10-02'']),
        cho = concat (map (\<lambda>d. pair_rows exact_arithmetic sample_upstream d 17) [''2025-10-01'', ''2025-10-02''])\<rparr>"
    by blast
  from t f have m: "pair_rows exact_arithmetic sample_upstream ''2025-10-01'' 16 = []"
    "pair_rows exact_arithmetic sample_upstream ''2025-10-02'' 16 = []"
    by blast+
  show ?thesis using a b d n m c by simp
qed

subsection \<open>Pauses\<close>

lemma call_events_no_sleep: "filter is_sleep (call_events up d) = []"
  by (simp add: call_events_def split: sum.splits)

lemma paced_sleeps:
  "is_sleep p \<Longrightarrow> (\<And>g. g \<in> set gs \<Longrightarrow> filter is_sleep g = []) \<Longrightarrow>
   filter is_sleep (paced p gs) = replicate (length gs - 1) p"
  by (induction p gs rule: paced.induct) simp_all

text \<open>
  Claim C9, as stated, fails for the tabular crawler: in a run over one day, no pause
  follows the failed pair of facility 16, and a pause follows the last pair of the run.
\<close>

theorem tabular_run_pauses_after_last_pair:
  "snd (nowon_crawlMonth exact_arithmetic sample_upstream [''2025-10-01''] (1 / 2))
     = [Post (nowon_baseUrl @ ''/sports/reserve_time_pick'') [''2025-10-01'', ''15''],
        Post (nowon_baseUrl @ ''/API'') [''A'', ''2025-10-01'', ''15''],
        Sleep 500,
        Post (nowon_baseUrl @ ''/sports/reserve_time_pick'') [''2025-10-01'', ''16''],
        Post (nowon_baseUrl @ ''/sports/reserve_time_pick'') [''2025-10-01'', ''17''],
        Post (nowon_baseUrl @ ''/API'') [''A'', ''2025-10-01'', ''17''],
        Sleep 500]"
proof -
  have s: "string_of_int 15 = ''15''" "string_of_int 16 = ''16''" "string_of_int 17 = ''17''"
    by code_simp+
  show ?thesis
    by (simp add: nowon_crawlMonth_closed day_events_def pair_events_def sample_upstream_def s)
qed

text \<open>
  Claim C9, amended. The embedded-markup crawler pauses for the configured delay between
  the requests of one date and those of the next, whether the date succeeded or failed,
  and not after the last date: a run over \<open>n\<close> dates has \<open>n - 1\<close> pauses. The tabular
  crawler pauses, when the delay is positive, after each pair whose schedule request
  returned, the last pair of the run included, and does not pause after a pair whose
  schedule request threw.
\<close>

theorem pauses_of_a_run:
  "events (snd (tennis_crawlMonth lib up lastDay year month delay s))
     = events s @ paced (Sleep (delay * 1000)) (map (call_events up) (getMonthDates lastDay year month))
   \<and> filter is_sleep (paced (Sleep (delay * 1000))
                        (map (call_events up) (getMonthDates lastDay year month)))
     = replicate (length (getMonthDates lastDay year month) - 1) (Sleep (delay * 1000))
   \<and> snd (nowon_crawlMonth ar nup pickDates delay) = concat (map (day_events nup delay) pickDates)
   \<and> (\<forall>d. day_events nup delay d
            = pair_events nup delay d 15 @ pair_events nup delay d 16 @ pair_events nup delay d 17)
   \<and> (\<forall>d c e. reserve_time_pick nup d c = Inl e \<longrightarrow>
          filter is_sleep (pair_events nup delay d c) = [])
   \<and> (\<forall>d c r. reserve_time_pick nup d c = Inr r \<longrightarrow>
          filter is_sleep (pair_events nup delay d c)
            = (if 0 < delay then [Sleep (delay * 1000)] else []))"
proof -
  have t1: "events (snd (tennis_crawlMonth lib up lastDay year month delay s))
     = events s @ paced (Sleep (delay * 1000)) (map (call_events up) (getMonthDates lastDay year month))"
    by (simp add: tennis_crawlMonth_closed)
  have t2: "filter is_sleep (paced (Sleep (delay * 1000))
                        (map (call_events up) (getMonthDates lastDay year month)))
     = replicate (length (getMonthDates lastDay year month) - 1) (Sleep (delay * 1000))"
    using paced_sleeps [of "Sleep (delay * 1000)" "map (call_events up) (getMonthDates lastDay year month)"]
      call_events_no_sleep by auto
  have n1: "snd (nowon_crawlMonth ar nup pickDates delay) = concat (map (day_events nup delay) pickDates)"
    by (simp add: nowon_crawlMonth_closed)
  have n2: "\<forall>d. day_events nup delay d
            = pair_events nup delay d 15 @ pair_events nup delay d 16 @ pair_events nup delay d 17"
    by (simp add: day_events_def)
  have n3: "\<forall>d c e. reserve_time_pick nup d c = Inl e \<longrightarrow>
          filter is_sleep (pair_events nup delay d c) = []"
    by (simp add: pair_events_def)
  have n4: "\<forall>d c r. reserve_time_pick nup d c = Inr r \<longrightarrow>
          filter is_sleep (pair_events nup delay d c)
            = (if 0 < delay then [Sleep (delay * 1000)] else [])"
    by (simp add: pair_events_def)
  from t1 t2 n1 n2 n3 n4 show ?thesis by blast
qed

theorem pauses_of_a_run_witness:
  "events (snd (tennis_crawlMonth sample_platform sample_tennis_upstream 3 2025 10 (1 / 2)
                  new_TennisCourtCrawler))
     = [Get indexUrl, Post ajaxUrl [''05'', ''20251001'', ''23''], Sleep 500,
        Get indexUrl, Post ajaxUrl [''05'', ''20251002'', ''23''], Sleep 500,
        Get indexUrl, Post ajaxUrl [''05'', ''20251003'', ''23'']]
   \<and> filter is_sleep (pair_events sample_upstream (1 / 2) ''2025-10-01'' 16) = []
   \<and> filter is_sleep (pair_events sample_upstream (1 / 2) ''2025-10-01'' 17) = [Sleep 500]"
proof -
  note t = pauses_of_a_run [where lib = sample_platform and up = sample_tennis_upstream
      and lastDay = 3 and year = 2025 and month = 10 and delay = "1 / 2"
      and s = new_TennisCourtCrawler and nup = sample_upstream and ar = exact_arithmetic
      and pickDates = "[''2025-10-01'']"]
  have d: "getMonthDates 3 2025 10 = [''20251001'', ''20251002'', ''20251003'']"
    by code_simp
  have f: "reserve_time_pick sample_upstream ''2025-10-01'' 16 = Inl (AxiosError ''timeout of 15000ms exceeded'')"
    "reserve_time_pick sample_upstream ''2025-10-01'' 17 = Inr \<lparr>useBeginHour = 8, hourUnit = 1, line = ''2''\<rparr>"
    by (simp_all add: sample_upstream_def)
  from t have a: "events (snd (tennis_crawlMonth sample_platform sample_tennis_upstream 3 2025 10 (1 / 2)
                  new_TennisCourtCrawler))
     = events new_TennisCourtCrawler @ paced (Sleep ((1 / 2) * 1000))
         (map (call_events sample_tennis_upstream) (getMonthDates 3 2025 10))"
    by blast
  from t f have b: "filter is_sleep (pair_events sample_upstream (1 / 2) ''2025-10-01'' 16) = []"
    by blast
  from t f have c: "filter is_sleep (pair_events sample_upstream (1 / 2) ''2025-10-01'' 17)
      = (if (0::rat) < 1 / 2 then [Sleep ((1 / 2) * 1000)] else [])"
    by blast
  show ?thesis
    using a b c
    by (simp add: d call_events_def sample_tennis_upstream_def new_TennisCourtCrawler_def)
qed

end
